theory Spec2Isabelle
  imports Main
begin

section \<open>The assisted-installer controller\<close>

text \<open>
  A shallow embedding of \<^verbatim>\<open>assisted_installer_controller.go\<close>. The controller talks to two
  clients through Go interfaces (the inventory client \<^verbatim>\<open>ic\<close> and the Kubernetes client
  \<^verbatim>\<open>kc\<close>). An interface is a record of operations over a world \<open>'w\<close> that the model does
  not look into: each operation takes the world and returns its result with the next
  world. Every call the controller makes is appended, with its arguments and its result,
  to a trace, so that what the controller asks of its clients, and in which order, can
  be stated.

  A Go result pair \<^verbatim>\<open>(value, error)\<close> whose value is read only when the error is nil is a
  sum (\<open>Inl\<close> the error); a lone \<^verbatim>\<open>error\<close> is an option (\<open>None\<close> is nil). The pair
  of \<^verbatim>\<open>GetHosts\<close> stays a pair, since the controller reads the map whatever the error is.
  A value returned with a nil error is taken to be non-nil.
\<close>

subsection \<open>Data\<close>

text \<open>
  Of each resource the fields that the controller reads or writes. A Go \<^verbatim>\<open>error\<close> is its
  message. A \<^verbatim>\<open>metav1.Time\<close> is an instant counted from the zero instant of \<^verbatim>\<open>time.Time\<close>, so
  the zero time is 0; the pointer \<^verbatim>\<open>LastUpdated\<close> is an option. \<^verbatim>\<open>HostID\<close> is
  \<^verbatim>\<open>host.Host.ID.String()\<close>, and \<^verbatim>\<open>OperationalStatus\<close> stands for the fields of the status
  of a bare-metal host other than \<^verbatim>\<open>LastUpdated\<close>.
\<close>

type_synonym error = string

type_synonym Time = nat

record HostData =
  HostID :: string

record Node =
  NodeName :: string
  SystemUUID :: string

record Pod =
  PodName :: string
  PodPhase :: string

record CertificateSigningRequestCondition =
  ConditionType :: string
  ConditionReason :: string

record CertificateSigningRequest =
  CsrName :: string
  Conditions :: "CertificateSigningRequestCondition list"

record BareMetalHostStatus =
  LastUpdated :: "Time option"
  OperationalStatus :: string

record BareMetalHost =
  BmhName :: string
  Annotations :: "string \<rightharpoonup> string"
  Status :: BareMetalHostStatus

record Cluster =
  ClusterStatus :: string

record ConfigMap =
  Data :: "string \<rightharpoonup> string"

text \<open>The constants of the imported packages that the controller names.\<close>

definition HostStatusDisabled :: string where
  "HostStatusDisabled = ''disabled''"

definition HostStatusError :: string where
  "HostStatusError = ''error''"

definition HostStatusInstalled :: string where
  "HostStatusInstalled = ''installed''"

definition HostStageDone :: string where
  "HostStageDone = ''Done''"

definition ClusterStatusFinalizing :: string where
  "ClusterStatusFinalizing = ''finalizing''"

definition CertificateApproved :: string where
  "CertificateApproved = ''Approved''"

definition StatusAnnotation :: string where
  "StatusAnnotation = ''baremetalhost.metal3.io/status''"

definition generalWaitTimeoutInt :: nat where
  "generalWaitTimeoutInt = 30"

text \<open>Indexing a Go map of strings gives the empty string at a key it does not hold.\<close>

definition index :: "(string \<rightharpoonup> string) \<Rightarrow> string \<Rightarrow> string" where
  "index m k = (case m k of None \<Rightarrow> [] | Some v \<Rightarrow> v)"

text \<open>\<^verbatim>\<open>(*metav1.Time).IsZero\<close>: a nil pointer is zero, and so is the zero instant.\<close>

fun IsZero :: "Time option \<Rightarrow> bool" where
  "IsZero None = True"
| "IsZero (Some t) = (t = 0)"

subsection \<open>The clients and the trace of their calls\<close>

datatype event =
    GetHosts_ev "string list" "(string \<rightharpoonup> HostData) \<times> error option"
  | UpdateHostInstallProgress_ev string string string "error option"
  | GetCluster_ev "error + Cluster"
  | UploadIngressCa_ev string string "error option"
  | CompleteInstallation_ev string bool string "error option"
  | ListNodes_ev "error + Node list"
  | GetPods_ev string "string \<rightharpoonup> string" "error + Pod list"
  | GetPodLogs_ev string string nat "error + string"
  | ApproveCsr_ev CertificateSigningRequest "error option"
  | UpdateBMHStatus_ev BareMetalHost "error option"
  | UpdateBMH_ev BareMetalHost "error option"
  | GetConfigMap_ev string string "error + ConfigMap"
  | UnPatchEtcd_ev "error option"
  | IsMetalProvisioningExists_ev "error + bool"
  | ListBMHs_ev "error + BareMetalHost list"
  | SetConfiguringStatusForHosts_ev "string \<rightharpoonup> HostData" string bool unit
  | Now_ev Time

record 'w InventoryClient =
  GetHosts :: "string list \<Rightarrow> 'w \<Rightarrow> ((string \<rightharpoonup> HostData) \<times> error option) \<times> 'w"
  UpdateHostInstallProgress :: "string \<Rightarrow> string \<Rightarrow> string \<Rightarrow> 'w \<Rightarrow> error option \<times> 'w"
  GetCluster :: "'w \<Rightarrow> (error + Cluster) \<times> 'w"
  UploadIngressCa :: "string \<Rightarrow> string \<Rightarrow> 'w \<Rightarrow> error option \<times> 'w"
  CompleteInstallation :: "string \<Rightarrow> bool \<Rightarrow> string \<Rightarrow> 'w \<Rightarrow> error option \<times> 'w"

record 'w K8SClient =
  ListNodes :: "'w \<Rightarrow> (error + Node list) \<times> 'w"
  GetPods :: "string \<Rightarrow> (string \<rightharpoonup> string) \<Rightarrow> 'w \<Rightarrow> (error + Pod list) \<times> 'w"
  GetPodLogs :: "string \<Rightarrow> string \<Rightarrow> nat \<Rightarrow> 'w \<Rightarrow> (error + string) \<times> 'w"
  ApproveCsr :: "CertificateSigningRequest \<Rightarrow> 'w \<Rightarrow> error option \<times> 'w"
  UpdateBMHStatus :: "BareMetalHost \<Rightarrow> 'w \<Rightarrow> error option \<times> 'w"
  UpdateBMH :: "BareMetalHost \<Rightarrow> 'w \<Rightarrow> error option \<times> 'w"
  GetConfigMap :: "string \<Rightarrow> string \<Rightarrow> 'w \<Rightarrow> (error + ConfigMap) \<times> 'w"
  UnPatchEtcd :: "'w \<Rightarrow> error option \<times> 'w"
  IsMetalProvisioningExists :: "'w \<Rightarrow> (error + bool) \<times> 'w"
  ListBMHs :: "'w \<Rightarrow> (error + BareMetalHost list) \<times> 'w"

text \<open>
  The controller: its configuration and its two clients. The functions of other packages
  that its methods call (\<^verbatim>\<open>common.SetConfiguringStatusForHosts\<close>, \<^verbatim>\<open>metav1.Now\<close>,
  \<^verbatim>\<open>json.Unmarshal\<close> into a host status) are not in this file of the source; they are
  carried in the same record, so that every method takes the one receiver \<open>c\<close>.
\<close>

record 'w controller =
  ClusterID :: string
  ic :: "'w InventoryClient"
  kc :: "'w K8SClient"
  SetConfiguringStatusForHosts ::
    "'w InventoryClient \<Rightarrow> (string \<rightharpoonup> HostData) \<Rightarrow> string \<Rightarrow> bool \<Rightarrow> 'w \<Rightarrow> unit \<times> 'w"
  Now :: "'w \<Rightarrow> Time \<times> 'w"
  Unmarshal :: "string \<Rightarrow> error + BareMetalHostStatus"

record 'w state =
  world :: 'w
  trace :: "event list"

text \<open>One call of a client: the world moves on and the event joins the trace.\<close>

definition call :: "('w \<Rightarrow> 'r \<times> 'w) \<Rightarrow> ('r \<Rightarrow> event) \<Rightarrow> 'w state \<Rightarrow> 'r \<times> 'w state" where
  "call f ev s =
     (case f (world s) of (r, w) \<Rightarrow> (r, \<lparr>world = w, trace = trace s @ [ev r]\<rparr>))"

text \<open>
  A loop with no bound runs on fuel, one unit for each iteration: \<open>Returned\<close> when the
  loop has left, \<open>Running\<close> with the state reached when the fuel is spent.
\<close>

datatype 'a run = Returned 'a | Running 'a

datatype 'a iteration = Break 'a | Continue 'a

definition and_then :: "'a run \<Rightarrow> ('a \<Rightarrow> 'a run) \<Rightarrow> 'a run" where
  "and_then r f = (case r of Returned s \<Rightarrow> f s | Running s \<Rightarrow> Running s)"

fun state_of :: "'a run \<Rightarrow> 'a" where
  "state_of (Returned s) = s"
| "state_of (Running s) = s"

fun has_returned :: "'a run \<Rightarrow> bool" where
  "has_returned (Returned s) = True"
| "has_returned (Running s) = False"

subsection \<open>WaitAndUpdateNodesStatus\<close>

definition ignoreStatuses :: "string list" where
  "ignoreStatuses = [HostStatusDisabled, HostStatusError, HostStatusInstalled]"

text \<open>The loop over \<^verbatim>\<open>nodes.Items\<close>; a failed update is logged and the loop goes on.\<close>

fun updateNodes :: "'w controller \<Rightarrow> (string \<rightharpoonup> HostData) \<Rightarrow> Node list \<Rightarrow> 'w state \<Rightarrow> 'w state" where
  "updateNodes c assistedInstallerNodesMap [] s = s"
| "updateNodes c assistedInstallerNodesMap (node # nodes) s =
     (case assistedInstallerNodesMap (NodeName node) of
        None \<Rightarrow> updateNodes c assistedInstallerNodesMap nodes s
      | Some host \<Rightarrow>
          (case call (UpdateHostInstallProgress (ic c) (HostID host) HostStageDone [])
                  (UpdateHostInstallProgress_ev (HostID host) HostStageDone []) s of
             (Some err, s1) \<Rightarrow> updateNodes c assistedInstallerNodesMap nodes s1
           | (None, s1) \<Rightarrow> updateNodes c assistedInstallerNodesMap nodes s1))"

text \<open>The loop over the pods of \<^verbatim>\<open>getMCSLogs\<close>, with the logs read so far.\<close>

fun getMCSLogs_pods ::
  "'w controller \<Rightarrow> string \<Rightarrow> Pod list \<Rightarrow> string \<Rightarrow> 'w state \<Rightarrow> (string \<times> error option) \<times> 'w state" where
  "getMCSLogs_pods c namespace [] logs s = ((logs, None), s)"
| "getMCSLogs_pods c namespace (pod # pods) logs s =
     (case call (GetPodLogs (kc c) namespace (PodName pod) (generalWaitTimeoutInt * 10))
             (GetPodLogs_ev namespace (PodName pod) (generalWaitTimeoutInt * 10)) s of
        (Inl err, s1) \<Rightarrow> (([], None), s1)
      | (Inr podLogs, s1) \<Rightarrow> getMCSLogs_pods c namespace pods (logs @ podLogs) s1)"

definition mcsNamespace :: string where
  "mcsNamespace = ''openshift-machine-config-operator''"

definition mcsLabels :: "string \<rightharpoonup> string" where
  "mcsLabels = [''k8s-app'' \<mapsto> ''machine-config-server'']"

definition getMCSLogs :: "'w controller \<Rightarrow> 'w state \<Rightarrow> (string \<times> error option) \<times> 'w state" where
  "getMCSLogs c s =
     (case call (GetPods (kc c) mcsNamespace mcsLabels) (GetPods_ev mcsNamespace mcsLabels) s of
        (Inl err, s1) \<Rightarrow> (([], None), s1)
      | (Inr pods, s1) \<Rightarrow> getMCSLogs_pods c mcsNamespace pods [] s1)"

definition updateConfiguringStatusIfNeeded ::
  "'w controller \<Rightarrow> (string \<rightharpoonup> HostData) \<Rightarrow> 'w state \<Rightarrow> 'w state" where
  "updateConfiguringStatusIfNeeded c hosts s =
     (case getMCSLogs c s of
        ((logs, Some err), s1) \<Rightarrow> s1
      | ((logs, None), s1) \<Rightarrow>
          snd (call (SetConfiguringStatusForHosts c (ic c) hosts logs True)
                 (SetConfiguringStatusForHosts_ev hosts logs True) s1))"

text \<open>
  One iteration of the loop of \<^verbatim>\<open>WaitAndUpdateNodesStatus\<close>. The error of \<^verbatim>\<open>GetHosts\<close> is
  logged and nothing else is done with it; the length of the map is tested next.
\<close>

definition WaitAndUpdateNodesStatus_iteration :: "'w controller \<Rightarrow> 'w state \<Rightarrow> 'w state iteration" where
  "WaitAndUpdateNodesStatus_iteration c s =
     (case call (GetHosts (ic c) ignoreStatuses) (GetHosts_ev ignoreStatuses) s of
        ((assistedInstallerNodesMap, err), s1) \<Rightarrow>
          if assistedInstallerNodesMap = Map.empty then Break s1
          else
            (case call (ListNodes (kc c)) ListNodes_ev s1 of
               (Inl err, s2) \<Rightarrow> Continue s2
             | (Inr nodes, s2) \<Rightarrow>
                 Continue (updateConfiguringStatusIfNeeded c assistedInstallerNodesMap
                             (updateNodes c assistedInstallerNodesMap nodes s2))))"

fun WaitAndUpdateNodesStatus :: "nat \<Rightarrow> 'w controller \<Rightarrow> 'w state \<Rightarrow> 'w state run" where
  "WaitAndUpdateNodesStatus 0 c s = Running s"
| "WaitAndUpdateNodesStatus (Suc fuel) c s =
     (case WaitAndUpdateNodesStatus_iteration c s of
        Break s1 \<Rightarrow> Returned s1
      | Continue s1 \<Rightarrow> WaitAndUpdateNodesStatus fuel c s1)"

subsection \<open>approveCsrs\<close>

fun isCsrApproved_conditions :: "CertificateSigningRequestCondition list \<Rightarrow> bool" where
  "isCsrApproved_conditions [] = False"
| "isCsrApproved_conditions (condition # conditions) =
     (if ConditionType condition = CertificateApproved then True
      else isCsrApproved_conditions conditions)"

definition isCsrApproved :: "CertificateSigningRequest \<Rightarrow> bool" where
  "isCsrApproved csr = isCsrApproved_conditions (Conditions csr)"

text \<open>The error of \<^verbatim>\<open>ApproveCsr\<close> is dropped: the next tick tries again.\<close>

fun approveCsrs :: "'w controller \<Rightarrow> CertificateSigningRequest list \<Rightarrow> 'w state \<Rightarrow> 'w state" where
  "approveCsrs c [] s = s"
| "approveCsrs c (csr # csrs) s =
     (if \<not> isCsrApproved csr
      then approveCsrs c csrs (snd (call (ApproveCsr (kc c) csr) (ApproveCsr_ev csr) s))
      else approveCsrs c csrs s)"

subsection \<open>PostInstallConfigs\<close>

text \<open>The first loop of \<^verbatim>\<open>PostInstallConfigs\<close>: it is left when the cluster is finalizing.\<close>

fun PostInstallConfigs_wait :: "nat \<Rightarrow> 'w controller \<Rightarrow> 'w state \<Rightarrow> 'w state run" where
  "PostInstallConfigs_wait 0 c s = Running s"
| "PostInstallConfigs_wait (Suc fuel) c s =
     (case call (GetCluster (ic c)) GetCluster_ev s of
        (Inl err, s1) \<Rightarrow> PostInstallConfigs_wait fuel c s1
      | (Inr cluster, s1) \<Rightarrow>
          if ClusterStatus cluster \<noteq> ClusterStatusFinalizing
          then PostInstallConfigs_wait fuel c s1
          else Returned s1)"

definition cmName :: string where
  "cmName = ''default-ingress-cert''"

definition cmNamespace :: string where
  "cmNamespace = ''openshift-config-managed''"

fun addRouterCAToClusterCA :: "nat \<Rightarrow> 'w controller \<Rightarrow> 'w state \<Rightarrow> 'w state run" where
  "addRouterCAToClusterCA 0 c s = Running s"
| "addRouterCAToClusterCA (Suc fuel) c s =
     (case call (GetConfigMap (kc c) cmNamespace cmName) (GetConfigMap_ev cmNamespace cmName) s of
        (Inl err, s1) \<Rightarrow> addRouterCAToClusterCA fuel c s1
      | (Inr caConfigMap, s1) \<Rightarrow>
          (case call (UploadIngressCa (ic c) (index (Data caConfigMap) ''ca-bundle.crt'') (ClusterID c))
                  (UploadIngressCa_ev (index (Data caConfigMap) ''ca-bundle.crt'') (ClusterID c)) s1 of
             (Some err, s2) \<Rightarrow> addRouterCAToClusterCA fuel c s2
           | (None, s2) \<Rightarrow> Returned s2))"

fun unpatchEtcd :: "nat \<Rightarrow> 'w controller \<Rightarrow> 'w state \<Rightarrow> 'w state run" where
  "unpatchEtcd 0 c s = Running s"
| "unpatchEtcd (Suc fuel) c s =
     (case call (UnPatchEtcd (kc c)) UnPatchEtcd_ev s of
        (Some err, s1) \<Rightarrow> unpatchEtcd fuel c s1
      | (None, s1) \<Rightarrow> Returned s1)"

definition consoleNamespace :: string where
  "consoleNamespace = ''openshift-console''"

definition consoleLabels :: "string \<rightharpoonup> string" where
  "consoleLabels = [''app'' \<mapsto> ''console'', ''component'' \<mapsto> ''ui'']"

fun waitForConsole :: "nat \<Rightarrow> 'w controller \<Rightarrow> 'w state \<Rightarrow> 'w state run" where
  "waitForConsole 0 c s = Running s"
| "waitForConsole (Suc fuel) c s =
     (case call (GetPods (kc c) consoleNamespace consoleLabels)
             (GetPods_ev consoleNamespace consoleLabels) s of
        (Inl err, s1) \<Rightarrow> waitForConsole fuel c s1
      | (Inr pods, s1) \<Rightarrow>
          if list_ex (\<lambda>pod. PodPhase pod = ''Running'') pods then Returned s1
          else waitForConsole fuel c s1)"

fun sendCompleteInstallation ::
  "nat \<Rightarrow> 'w controller \<Rightarrow> bool \<Rightarrow> string \<Rightarrow> 'w state \<Rightarrow> 'w state run" where
  "sendCompleteInstallation 0 c isSuccess errorInfo s = Running s"
| "sendCompleteInstallation (Suc fuel) c isSuccess errorInfo s =
     (case call (CompleteInstallation (ic c) (ClusterID c) isSuccess errorInfo)
             (CompleteInstallation_ev (ClusterID c) isSuccess errorInfo) s of
        (Some err, s1) \<Rightarrow> sendCompleteInstallation fuel c isSuccess errorInfo s1
      | (None, s1) \<Rightarrow> Returned s1)"

definition PostInstallConfigs :: "nat \<Rightarrow> 'w controller \<Rightarrow> 'w state \<Rightarrow> 'w state run" where
  "PostInstallConfigs fuel c s =
     and_then (PostInstallConfigs_wait fuel c s) (\<lambda>s1.
     and_then (addRouterCAToClusterCA fuel c s1) (\<lambda>s2.
     and_then (unpatchEtcd fuel c s2) (\<lambda>s3.
     and_then (waitForConsole fuel c s3) (\<lambda>s4.
     sendCompleteInstallation fuel c True [] s4))))"

subsection \<open>updateBMHStatus\<close>

definition unmarshalStatusAnnotation :: "'w controller \<Rightarrow> string \<Rightarrow> error + BareMetalHostStatus" where
  "unmarshalStatusAnnotation c content =
     (case Unmarshal c content of Inl err \<Rightarrow> Inl err | Inr bmhStatus \<Rightarrow> Inr bmhStatus)"

text \<open>
  Lines 230 to 236: a status whose \<^verbatim>\<open>LastUpdated\<close> is zero is given the time of the clock.
\<close>

definition ensureLastUpdated :: "'w controller \<Rightarrow> BareMetalHost \<Rightarrow> 'w state \<Rightarrow> BareMetalHost \<times> 'w state" where
  "ensureLastUpdated c bmh s =
     (if IsZero (LastUpdated (Status bmh))
      then (case call (Now c) Now_ev s of
              (t, s1) \<Rightarrow> (bmh\<lparr>Status := (Status bmh)\<lparr>LastUpdated := Some t\<rparr>\<rparr>, s1))
      else (bmh, s))"

text \<open>
  The body of the loop of \<^verbatim>\<open>updateBMHStatus\<close>, for one host. \<^verbatim>\<open>annotations\<close> is the map
  of the host itself (Go maps are references), so \<^verbatim>\<open>delete\<close> takes the key out of the host
  that \<^verbatim>\<open>UpdateBMH\<close> is given. The two client calls are taken to read the host they are
  handed and not to write to it.
\<close>

definition updateBMHStatus_host ::
  "'w controller \<Rightarrow> BareMetalHost \<Rightarrow> bool \<times> 'w state \<Rightarrow> bool \<times> 'w state" where
  "updateBMHStatus_host c bmh acc =
     (case acc of (allUpdated, s) \<Rightarrow>
        (let annotations = Annotations bmh;
             content = index annotations StatusAnnotation
         in if index annotations StatusAnnotation = [] then (allUpdated, s)
            else
              (case unmarshalStatusAnnotation c content of
                 Inl err \<Rightarrow> (False, s)
               | Inr objStatus \<Rightarrow>
                   (case ensureLastUpdated c (bmh\<lparr>Status := objStatus\<rparr>) s of
                      (bmh1, s1) \<Rightarrow>
                        (case call (UpdateBMHStatus (kc c) bmh1) (UpdateBMHStatus_ev bmh1) s1 of
                           (Some err, s2) \<Rightarrow> (False, s2)
                         | (None, s2) \<Rightarrow>
                             (let bmh2 = bmh1\<lparr>Annotations := annotations(StatusAnnotation := None)\<rparr>
                              in case call (UpdateBMH (kc c) bmh2) (UpdateBMH_ev bmh2) s2 of
                                   (err, s3) \<Rightarrow> (False, s3)))))))"

fun updateBMHStatus_items ::
  "'w controller \<Rightarrow> BareMetalHost list \<Rightarrow> bool \<times> 'w state \<Rightarrow> bool \<times> 'w state" where
  "updateBMHStatus_items c [] acc = acc"
| "updateBMHStatus_items c (bmh # bmhs) acc =
     updateBMHStatus_items c bmhs (updateBMHStatus_host c bmh acc)"

definition updateBMHStatus :: "'w controller \<Rightarrow> BareMetalHost list \<Rightarrow> 'w state \<Rightarrow> bool \<times> 'w state" where
  "updateBMHStatus c bmhList s = updateBMHStatus_items c bmhList (True, s)"

definition UpdateBMHs_iteration :: "'w controller \<Rightarrow> 'w state \<Rightarrow> 'w state iteration" where
  "UpdateBMHs_iteration c s =
     (case call (IsMetalProvisioningExists (kc c)) IsMetalProvisioningExists_ev s of
        (Inl err, s1) \<Rightarrow> Continue s1
      | (Inr exists, s1) \<Rightarrow>
          if exists then Break s1
          else
            (case call (ListBMHs (kc c)) ListBMHs_ev s1 of
               (Inl err, s2) \<Rightarrow> Continue s2
             | (Inr bmhs, s2) \<Rightarrow>
                 (case updateBMHStatus c bmhs s2 of
                    (allUpdated, s3) \<Rightarrow> if allUpdated then Break s3 else Continue s3)))"

fun UpdateBMHs :: "nat \<Rightarrow> 'w controller \<Rightarrow> 'w state \<Rightarrow> 'w state run" where
  "UpdateBMHs 0 c s = Running s"
| "UpdateBMHs (Suc fuel) c s =
     (case UpdateBMHs_iteration c s of
        Break s1 \<Rightarrow> Returned s1
      | Continue s1 \<Rightarrow> UpdateBMHs fuel c s1)"

subsection \<open>Observations on traces\<close>

text \<open>An event has failed when the call came back with an error.\<close>

fun failed :: "event \<Rightarrow> bool" where
  "failed (GetHosts_ev ign r) = (snd r \<noteq> None)"
| "failed (UpdateHostInstallProgress_ev hostID stage info err) = (err \<noteq> None)"
| "failed (GetCluster_ev r) = isl r"
| "failed (UploadIngressCa_ev ca clusterID err) = (err \<noteq> None)"
| "failed (CompleteInstallation_ev clusterID isSuccess errorInfo err) = (err \<noteq> None)"
| "failed (ListNodes_ev r) = isl r"
| "failed (GetPods_ev namespace labels r) = isl r"
| "failed (GetPodLogs_ev namespace pod lines r) = isl r"
| "failed (ApproveCsr_ev csr err) = (err \<noteq> None)"
| "failed (UpdateBMHStatus_ev bmh err) = (err \<noteq> None)"
| "failed (UpdateBMH_ev bmh err) = (err \<noteq> None)"
| "failed (GetConfigMap_ev namespace name r) = isl r"
| "failed (UnPatchEtcd_ev err) = (err \<noteq> None)"
| "failed (IsMetalProvisioningExists_ev r) = isl r"
| "failed (ListBMHs_ev r) = isl r"
| "failed (SetConfiguringStatusForHosts_ev hosts logs fromBootstrap u) = False"
| "failed (Now_ev t) = False"

text \<open>
  The calls of \<^verbatim>\<open>PostInstallConfigs\<close>, by the step they belong to: the poll of the cluster
  status (1), the read and the upload of the ingress CA (2), the removal of the etcd
  patch (3), the poll of the console pods (4), the report of completion (5).
\<close>

fun step_of :: "event \<Rightarrow> nat" where
  "step_of (GetCluster_ev r) = 1"
| "step_of (GetConfigMap_ev namespace name r) = 2"
| "step_of (UploadIngressCa_ev ca clusterID err) = 2"
| "step_of (UnPatchEtcd_ev err) = 3"
| "step_of (GetPods_ev namespace labels r) = 4"
| "step_of (CompleteInstallation_ev clusterID isSuccess errorInfo err) = 5"
| "step_of ev = 0"

fun observes_finalizing :: "event \<Rightarrow> bool" where
  "observes_finalizing (GetCluster_ev (Inr cluster)) = (ClusterStatus cluster = ClusterStatusFinalizing)"
| "observes_finalizing ev = False"

fun accepted_report :: "event \<Rightarrow> bool" where
  "accepted_report (CompleteInstallation_ev clusterID isSuccess errorInfo None) = True"
| "accepted_report ev = False"

fun is_report :: "event \<Rightarrow> bool" where
  "is_report (CompleteInstallation_ev clusterID isSuccess errorInfo err) = True"
| "is_report ev = False"

text \<open>
  A monitor for the order of the steps. It reads the calls one by one: it leaves \<open>Gate\<close> at
  the first \<^verbatim>\<open>GetCluster\<close> that shows the cluster finalizing, leaves each later step at
  the call that lets the loop of that step end, and is \<open>Done\<close> after a report that the
  inventory accepted. A call that is not the one the current step makes next sends it
  to \<open>Bad\<close>, and so does any call after \<open>Done\<close>.
\<close>

datatype finalizer_phase = Gate | ReadCA | UploadCA | Unpatch | Console | Report | Done | Bad

fun advance :: "finalizer_phase \<Rightarrow> event \<Rightarrow> finalizer_phase" where
  "advance p (GetCluster_ev r) =
     (if p = Gate
      then (case r of
              Inl err \<Rightarrow> Gate
            | Inr cluster \<Rightarrow> if ClusterStatus cluster = ClusterStatusFinalizing then ReadCA else Gate)
      else Bad)"
| "advance p (GetConfigMap_ev namespace name r) =
     (if p = ReadCA then (if isl r then ReadCA else UploadCA) else Bad)"
| "advance p (UploadIngressCa_ev ca clusterID err) =
     (if p = UploadCA then (if err = None then Unpatch else ReadCA) else Bad)"
| "advance p (UnPatchEtcd_ev err) =
     (if p = Unpatch then (if err = None then Console else Unpatch) else Bad)"
| "advance p (GetPods_ev namespace labels r) =
     (if p = Console
      then (case r of
              Inl err \<Rightarrow> Console
            | Inr pods \<Rightarrow> if list_ex (\<lambda>pod. PodPhase pod = ''Running'') pods then Report else Console)
      else Bad)"
| "advance p (CompleteInstallation_ev clusterID isSuccess errorInfo err) =
     (if p = Report then (if err = None then Done else Report) else Bad)"
| "advance p ev = Bad"

fun step_of_phase :: "finalizer_phase \<Rightarrow> nat" where
  "step_of_phase Gate = 1"
| "step_of_phase ReadCA = 2"
| "step_of_phase UploadCA = 2"
| "step_of_phase Unpatch = 3"
| "step_of_phase Console = 4"
| "step_of_phase Report = 5"
| "step_of_phase Done = 6"
| "step_of_phase Bad = 0"

text \<open>
  Every call of \<^verbatim>\<open>UpdateBMH\<close> in the trace comes right after a call of \<^verbatim>\<open>UpdateBMHStatus\<close>
  that succeeded, for the same host with the status annotation taken out.
\<close>

definition removal_after_commit :: "event list \<Rightarrow> bool" where
  "removal_after_commit evs \<longleftrightarrow>
     (\<forall>i<length evs. \<forall>bmh err. evs ! i = UpdateBMH_ev bmh err \<longrightarrow>
        0 < i \<and> (\<exists>bmh1. evs ! (i - 1) = UpdateBMHStatus_ev bmh1 None \<and>
          bmh = bmh1\<lparr>Annotations := (Annotations bmh1)(StatusAnnotation := None)\<rparr>))"

subsection \<open>Clients for the examples\<close>

text \<open>
  A world that counts the calls made so far. The quiet clients answer every call with
  success and nothing to do; each example changes the answers it is about.
\<close>

definition quiet_ic :: "nat InventoryClient" where
  "quiet_ic =
     \<lparr>GetHosts = (\<lambda>ign w. ((Map.empty, None), Suc w)),
      UpdateHostInstallProgress = (\<lambda>hostID stage info w. (None, Suc w)),
      GetCluster = (\<lambda>w. (Inr \<lparr>ClusterStatus = ClusterStatusFinalizing\<rparr>, Suc w)),
      UploadIngressCa = (\<lambda>ca clusterID w. (None, Suc w)),
      CompleteInstallation = (\<lambda>clusterID isSuccess errorInfo w. (None, Suc w))\<rparr>"

definition quiet_kc :: "nat K8SClient" where
  "quiet_kc =
     \<lparr>ListNodes = (\<lambda>w. (Inr [], Suc w)),
      GetPods = (\<lambda>namespace labels w. (Inr [], Suc w)),
      GetPodLogs = (\<lambda>namespace pod lines w. (Inr [], Suc w)),
      ApproveCsr = (\<lambda>csr w. (None, Suc w)),
      UpdateBMHStatus = (\<lambda>bmh w. (None, Suc w)),
      UpdateBMH = (\<lambda>bmh w. (None, Suc w)),
      GetConfigMap = (\<lambda>namespace name w. (Inr \<lparr>Data = Map.empty\<rparr>, Suc w)),
      UnPatchEtcd = (\<lambda>w. (None, Suc w)),
      IsMetalProvisioningExists = (\<lambda>w. (Inr False, Suc w)),
      ListBMHs = (\<lambda>w. (Inr [], Suc w))\<rparr>"

definition quiet :: "nat controller" where
  "quiet =
     \<lparr>ClusterID = ''cluster-1'', ic = quiet_ic, kc = quiet_kc,
      SetConfiguringStatusForHosts = (\<lambda>client hosts logs fromBootstrap w. ((), Suc w)),
      Now = (\<lambda>w. (1600000000, Suc w)),
      Unmarshal = (\<lambda>content. Inl ''unexpected end of JSON input'')\<rparr>"

definition start :: "nat state" where
  "start = \<lparr>world = 0, trace = []\<rparr>"

definition inventory_down :: "nat controller" where
  "inventory_down =
     quiet\<lparr>ic := quiet_ic\<lparr>GetHosts :=
       (\<lambda>ign w. ((Map.empty, Some ''connection refused''), Suc w))\<rparr>\<rparr>"

definition scenario_hosts :: "string \<rightharpoonup> HostData" where
  "scenario_hosts = [''A'' \<mapsto> \<lparr>HostID = ''host-A''\<rparr>]"

definition scenario_nodes :: "Node list" where
  "scenario_nodes =
     [\<lparr>NodeName = ''A'', SystemUUID = ''uuid-A''\<rparr>, \<lparr>NodeName = ''C'', SystemUUID = ''uuid-C''\<rparr>]"

definition scenario :: "nat controller" where
  "scenario =
     quiet\<lparr>ic := quiet_ic\<lparr>GetHosts := (\<lambda>ign w. ((scenario_hosts, None), Suc w))\<rparr>,
           kc := quiet_kc\<lparr>ListNodes := (\<lambda>w. (Inr scenario_nodes, Suc w))\<rparr>\<rparr>"


definition mcs_pods :: "Pod list" where
  "mcs_pods =
     [\<lparr>PodName = ''machine-config-server-1'', PodPhase = ''Running''\<rparr>,
      \<lparr>PodName = ''machine-config-server-2'', PodPhase = ''Running''\<rparr>]"

definition mcs_logs_down :: "nat controller" where
  "mcs_logs_down =
     quiet\<lparr>kc := quiet_kc\<lparr>GetPods := (\<lambda>namespace labels w. (Inr mcs_pods, Suc w)),
       GetPodLogs := (\<lambda>namespace pod lines w.
         (if pod = ''machine-config-server-1'' then Inr ''10.0.0.7 GET /config/master''
          else Inl ''container not found'', Suc w))\<rparr>\<rparr>"

definition csr_approved :: CertificateSigningRequest where
  "csr_approved =
     \<lparr>CsrName = ''csr-1'',
      Conditions = [\<lparr>ConditionType = ''Approved'', ConditionReason = ''AutoApproved''\<rparr>]\<rparr>"

definition csr_pending :: CertificateSigningRequest where
  "csr_pending = \<lparr>CsrName = ''csr-2'', Conditions = []\<rparr>"

definition bmh_payload :: string where
  "bmh_payload = ''{\"operationalStatus\":\"OK\"}''"

definition bmh_payload_dated :: string where
  "bmh_payload_dated = ''{\"operationalStatus\":\"OK\",\"lastUpdated\":\"2020-09-01T00:00:00Z\"}''"

definition bmh_ctl :: "nat controller" where
  "bmh_ctl =
     quiet\<lparr>Unmarshal := (\<lambda>content.
       if content = bmh_payload then Inr \<lparr>LastUpdated = None, OperationalStatus = ''OK''\<rparr>
       else if content = bmh_payload_dated
       then Inr \<lparr>LastUpdated = Some 1598918400, OperationalStatus = ''OK''\<rparr>
       else Inl ''invalid character'')\<rparr>"

definition bmh_0 :: BareMetalHost where
  "bmh_0 =
     \<lparr>BmhName = ''bmh-0'', Annotations = [StatusAnnotation \<mapsto> bmh_payload],
      Status = \<lparr>LastUpdated = None, OperationalStatus = []\<rparr>\<rparr>"

definition bmh_1 :: BareMetalHost where
  "bmh_1 =
     \<lparr>BmhName = ''bmh-1'', Annotations = [StatusAnnotation \<mapsto> bmh_payload_dated],
      Status = \<lparr>LastUpdated = None, OperationalStatus = []\<rparr>\<rparr>"

definition bmh_commit_fails :: "nat controller" where
  "bmh_commit_fails =
     bmh_ctl\<lparr>kc := quiet_kc\<lparr>UpdateBMHStatus := (\<lambda>bmh w.
       (if BmhName bmh = ''bmh-1'' then Some ''conflict'' else None, Suc w))\<rparr>\<rparr>"

definition bmh_0_synced :: BareMetalHost where
  "bmh_0_synced =
     \<lparr>BmhName = ''bmh-0'', Annotations = Map.empty,
      Status = \<lparr>LastUpdated = Some 1600000000, OperationalStatus = ''OK''\<rparr>\<rparr>"

definition finalizer_demo :: "nat controller" where
  "finalizer_demo =
     quiet\<lparr>ic := quiet_ic\<lparr>GetCluster := (\<lambda>w.
         (Inr \<lparr>ClusterStatus =
            (if w = 0 then ''installing'' else if w = 1 then ''finalizing'' else ''completed'')\<rparr>, Suc w)),
       CompleteInstallation := (\<lambda>clusterID isSuccess errorInfo w.
         (if w = 6 then Some ''service unavailable'' else None, Suc w))\<rparr>,
       kc := quiet_kc\<lparr>GetPods := (\<lambda>namespace labels w.
         (Inr [\<lparr>PodName = ''console-1'', PodPhase = ''Running''\<rparr>], Suc w))\<rparr>\<rparr>"

definition finalizer_demo_trace :: "event list" where
  "finalizer_demo_trace =
     [GetCluster_ev (Inr \<lparr>ClusterStatus = ''installing''\<rparr>),
      GetCluster_ev (Inr \<lparr>ClusterStatus = ''finalizing''\<rparr>),
      GetConfigMap_ev cmNamespace cmName (Inr \<lparr>Data = Map.empty\<rparr>),
      UploadIngressCa_ev [] ''cluster-1'' None,
      UnPatchEtcd_ev None,
      GetPods_ev consoleNamespace consoleLabels (Inr [\<lparr>PodName = ''console-1'', PodPhase = ''Running''\<rparr>]),
      CompleteInstallation_ev ''cluster-1'' True [] (Some ''service unavailable''),
      CompleteInstallation_ev ''cluster-1'' True [] None]"

section \<open>Properties\<close>

subsection \<open>Calls and the trace\<close>

lemma call_trace: "call f ev s = (r, s1) \<Longrightarrow> trace s1 = trace s @ [ev r]"
  by (auto simp: call_def split: prod.splits)

lemma call_snd_trace: "trace (snd (call f ev s)) = trace s @ [ev (fst (call f ev s))]"
  by (simp add: call_def split: prod.splits)



lemma call_snd_world: "world (snd (call f ev s)) = snd (f (world s))"
  by (simp add: call_def split: prod.splits)

lemma foldl_call_world:
  "world (foldl (\<lambda>s x. snd (call (f x) (ev x) s)) s xs) = foldl (\<lambda>w x. snd (f x w)) (world s) xs"
  by (induction xs arbitrary: s) (simp_all add: call_snd_world)

subsection \<open>The end of WaitAndUpdateNodesStatus\<close>

lemma WaitAndUpdateNodesStatus_iteration_Break_iff:
  "(\<exists>s1. WaitAndUpdateNodesStatus_iteration c s = Break s1) \<longleftrightarrow>
     fst (fst (GetHosts (ic c) ignoreStatuses (world s))) = Map.empty"
  by (auto simp: WaitAndUpdateNodesStatus_iteration_def call_def split: prod.splits sum.splits)

text \<open>
  C1. The loop of WaitAndUpdateNodesStatus is left exactly when the map that GetHosts
  returned is empty, and the error that came with the map has no part in the test.
  When the inventory cannot be reached, GetHosts returns no map and an error: the
  error is logged, the nil map has length 0, and the loop is left on that very
  iteration, after the single failed query.
\<close>

theorem WaitAndUpdateNodesStatus_returns_on_failed_query:
  "WaitAndUpdateNodesStatus (Suc 0) inventory_down start =
     Returned \<lparr>world = Suc 0,
       trace = [GetHosts_ev ignoreStatuses (Map.empty, Some ''connection refused'')]\<rparr>"
  by (simp add: WaitAndUpdateNodesStatus_iteration_def call_def inventory_down_def quiet_def
      quiet_ic_def start_def)

subsection \<open>The update pass over the nodes\<close>

lemma updateNodes_trace:
  "\<exists>rs. length rs = length (filter (\<lambda>k. assistedInstallerNodesMap k \<noteq> None) (map NodeName nodes)) \<and>
     trace (updateNodes c assistedInstallerNodesMap nodes s) =
       trace s @ map2 (\<lambda>k. UpdateHostInstallProgress_ev (HostID (the (assistedInstallerNodesMap k))) HostStageDone [])
                  (filter (\<lambda>k. assistedInstallerNodesMap k \<noteq> None) (map NodeName nodes)) rs"
proof (induction nodes arbitrary: s)
  case Nil
  then show ?case by simp
next
  case (Cons node nodes)
  show ?case
  proof (cases "assistedInstallerNodesMap (NodeName node)")
    case None
    then show ?thesis using Cons.IH [of s] by simp
  next
    case (Some host)
    obtain r s1 where c: "call (UpdateHostInstallProgress (ic c) (HostID host) HostStageDone [])
                  (UpdateHostInstallProgress_ev (HostID host) HostStageDone []) s = (r, s1)"
      by (cases "call (UpdateHostInstallProgress (ic c) (HostID host) HostStageDone [])
                  (UpdateHostInstallProgress_ev (HostID host) HostStageDone []) s") 
    have u: "updateNodes c assistedInstallerNodesMap (node # nodes) s = updateNodes c assistedInstallerNodesMap nodes s1"
      using Some c by (cases r) simp_all
    from Cons.IH [of s1] obtain rs where
      rs: "length rs = length (filter (\<lambda>k. assistedInstallerNodesMap k \<noteq> None) (map NodeName nodes))"
        "trace (updateNodes c assistedInstallerNodesMap nodes s1) =
       trace s1 @ map2 (\<lambda>k. UpdateHostInstallProgress_ev (HostID (the (assistedInstallerNodesMap k))) HostStageDone [])
                  (filter (\<lambda>k. assistedInstallerNodesMap k \<noteq> None) (map NodeName nodes)) rs"
      by blast
    show ?thesis
      unfolding u by (rule exI [of _ "r # rs"]) (simp add: rs Some call_trace [OF c])
  qed
qed

lemma updateNodes_state:
  "updateNodes c hosts nodes s =
     foldl (\<lambda>s k. snd (call (UpdateHostInstallProgress (ic c) (HostID (the (hosts k))) HostStageDone [])
                          (UpdateHostInstallProgress_ev (HostID (the (hosts k))) HostStageDone []) s))
       s (filter (\<lambda>k. hosts k \<noteq> None) (map NodeName nodes))"
proof (induction nodes arbitrary: s)
  case Nil
  then show ?case by simp
next
  case (Cons node nodes)
  show ?case
  proof (cases "hosts (NodeName node)")
    case None
    then show ?thesis using Cons.IH [of s] by simp
  next
    case (Some host)
    obtain r s1 where c: "call (UpdateHostInstallProgress (ic c) (HostID host) HostStageDone [])
                  (UpdateHostInstallProgress_ev (HostID host) HostStageDone []) s = (r, s1)"
      by (cases "call (UpdateHostInstallProgress (ic c) (HostID host) HostStageDone [])
                  (UpdateHostInstallProgress_ev (HostID host) HostStageDone []) s")
    have u: "updateNodes c hosts (node # nodes) s = updateNodes c hosts nodes s1"
      using Some c by (cases r) simp_all
    show ?thesis unfolding u using Cons.IH [of s1] Some c by simp
  qed
qed

text \<open>
  C5. One pass over the node list makes, for each node whose name is a key of the
  pending map and in the order of the list, the call of UpdateHostInstallProgress with
  the id of that host, the stage Done and an empty info, and makes no other call: the
  state after the pass is the state before it taken through these calls of the client,
  one after the other, so the world is the one the client leaves and the trace holds
  each call with the result the client gave. When the names of the nodes are distinct,
  as the names of the nodes of a cluster are, that is exactly one update for each
  pending host that has a node of its name, and none for a host with no such node or a
  node with no such host. A host in an excluded stage is not in the map, so it has no
  update.
\<close>

theorem updateNodes_one_update_per_matching_host:
  assumes "distinct (map NodeName nodes)"
  shows "\<exists>ks rs. distinct ks \<and> set ks = dom hosts \<inter> NodeName ` set nodes \<and> length rs = length ks \<and>
     trace (updateNodes c hosts nodes s) =
       trace s @ map2 (\<lambda>k. UpdateHostInstallProgress_ev (HostID (the (hosts k))) HostStageDone []) ks rs \<and>
     world (updateNodes c hosts nodes s) =
       foldl (\<lambda>w k. snd (UpdateHostInstallProgress (ic c) (HostID (the (hosts k))) HostStageDone [] w))
         (world s) ks \<and>
     updateNodes c hosts nodes s =
       foldl (\<lambda>s k. snd (call (UpdateHostInstallProgress (ic c) (HostID (the (hosts k))) HostStageDone [])
                          (UpdateHostInstallProgress_ev (HostID (the (hosts k))) HostStageDone []) s))
         s ks"
proof -
  let ?ks = "filter (\<lambda>k. hosts k \<noteq> None) (map NodeName nodes)"
  have 1: "distinct ?ks" using assms by simp
  have 2: "set ?ks = dom hosts \<inter> NodeName ` set nodes" by (auto simp: dom_def)
  from updateNodes_trace [of hosts nodes c s] obtain rs where
    3: "length rs = length ?ks"
      "trace (updateNodes c hosts nodes s) =
         trace s @ map2 (\<lambda>k. UpdateHostInstallProgress_ev (HostID (the (hosts k))) HostStageDone []) ?ks rs"
    by blast
  note 4 = updateNodes_state [of c hosts nodes s]
  have 5: "world (updateNodes c hosts nodes s) =
       foldl (\<lambda>w k. snd (UpdateHostInstallProgress (ic c) (HostID (the (hosts k))) HostStageDone [] w))
         (world s) ?ks"
    unfolding 4 by (rule foldl_call_world)
  show ?thesis
    using 1 2 3 4 5 by (intro exI [of _ ?ks] exI [of _ rs]) simp
qed

text \<open>
  The scenario of the specification: host A is pending, host B is installed and so not
  in the map, and the nodes are A and C. The one call is the update of A, and the
  client has been called once.
\<close>

lemma updateNodes_example:
  "updateNodes scenario scenario_hosts scenario_nodes start =
     \<lparr>world = 1, trace = [UpdateHostInstallProgress_ev ''host-A'' ''Done'' [] None]\<rparr>"
  by (simp add: call_def scenario_def quiet_def quiet_ic_def start_def scenario_hosts_def
      scenario_nodes_def HostStageDone_def)

theorem updateNodes_one_update_per_matching_host_witness:
  "distinct (map NodeName scenario_nodes) \<and>
   (\<exists>ks rs. distinct ks \<and> set ks = dom scenario_hosts \<inter> NodeName ` set scenario_nodes \<and>
      length rs = length ks \<and>
      trace (updateNodes scenario scenario_hosts scenario_nodes start) =
        trace start @
        map2 (\<lambda>k. UpdateHostInstallProgress_ev (HostID (the (scenario_hosts k))) HostStageDone []) ks rs \<and>
      world (updateNodes scenario scenario_hosts scenario_nodes start) =
        foldl (\<lambda>w k. snd (UpdateHostInstallProgress (ic scenario) (HostID (the (scenario_hosts k))) HostStageDone [] w))
          (world start) ks \<and>
      updateNodes scenario scenario_hosts scenario_nodes start =
        foldl (\<lambda>s k. snd (call (UpdateHostInstallProgress (ic scenario) (HostID (the (scenario_hosts k))) HostStageDone [])
                          (UpdateHostInstallProgress_ev (HostID (the (scenario_hosts k))) HostStageDone []) s))
          start ks) \<and>
   updateNodes scenario scenario_hosts scenario_nodes start =
     \<lparr>world = 1, trace = [UpdateHostInstallProgress_ev ''host-A'' ''Done'' [] None]\<rparr>"
proof -
  have d: "distinct (map NodeName scenario_nodes)"
    by (simp add: scenario_nodes_def)
  from updateNodes_one_update_per_matching_host [OF d, of scenario_hosts scenario start] show ?thesis
    using d updateNodes_example by blast
qed

subsection \<open>The logs of the machine-config-server\<close>

lemma getMCSLogs_pods_best_effort:
  "\<exists>logs1 s1 evs. getMCSLogs_pods c namespace pods logs s = ((logs1, None), s1) \<and>
     trace s1 = trace s @ evs \<and> (list_ex failed evs \<longrightarrow> logs1 = [])"
proof (induction pods arbitrary: logs s)
  case Nil
  then show ?case by simp
next
  case (Cons pod pods)
  obtain r s1 where c: "call (GetPodLogs (kc c) namespace (PodName pod) (generalWaitTimeoutInt * 10))
             (GetPodLogs_ev namespace (PodName pod) (generalWaitTimeoutInt * 10)) s = (r, s1)"
    by (cases "call (GetPodLogs (kc c) namespace (PodName pod) (generalWaitTimeoutInt * 10))
             (GetPodLogs_ev namespace (PodName pod) (generalWaitTimeoutInt * 10)) s")
  show ?case
  proof (cases r)
    case (Inl err)
    then show ?thesis using c call_trace [OF c] by simp
  next
    case (Inr podLogs)
    from Cons.IH [of "logs @ podLogs" s1] obtain logs1 s2 evs where
      ih: "getMCSLogs_pods c namespace pods (logs @ podLogs) s1 = ((logs1, None), s2)"
        "trace s2 = trace s1 @ evs" "list_ex failed evs \<longrightarrow> logs1 = []"
      by blast
    have "getMCSLogs_pods c namespace (pod # pods) logs s = ((logs1, None), s2)"
      using c Inr ih(1) by simp
    moreover have "trace s2 = trace s @ (GetPodLogs_ev namespace (PodName pod) (generalWaitTimeoutInt * 10) r # evs)"
      using ih(2) call_trace [OF c] by simp
    moreover have "list_ex failed (GetPodLogs_ev namespace (PodName pod) (generalWaitTimeoutInt * 10) r # evs) \<longrightarrow> logs1 = []"
      using ih(3) Inr by simp
    ultimately show ?thesis by blast
  qed
qed

lemma getMCSLogs_never_fails:
  "\<exists>logs s1 evs. getMCSLogs c s = ((logs, None), s1) \<and>
     trace s1 = trace s @ evs \<and> (list_ex failed evs \<longrightarrow> logs = [])"
proof -
  obtain r s1 where c: "call (GetPods (kc c) mcsNamespace mcsLabels) (GetPods_ev mcsNamespace mcsLabels) s = (r, s1)"
    by (cases "call (GetPods (kc c) mcsNamespace mcsLabels) (GetPods_ev mcsNamespace mcsLabels) s")
  show ?thesis
  proof (cases r)
    case (Inl err)
    then show ?thesis using c call_trace [OF c] by (simp add: getMCSLogs_def)
  next
    case (Inr pods)
    from getMCSLogs_pods_best_effort [of c mcsNamespace pods "[]" s1] obtain logs1 s2 evs where
      ih: "getMCSLogs_pods c mcsNamespace pods [] s1 = ((logs1, None), s2)"
        "trace s2 = trace s1 @ evs" "list_ex failed evs \<longrightarrow> logs1 = []"
      by blast
    have "getMCSLogs c s = ((logs1, None), s2)"
      using c Inr ih(1) by (simp add: getMCSLogs_def)
    moreover have "trace s2 = trace s @ (GetPods_ev mcsNamespace mcsLabels r # evs)"
      using ih(2) call_trace [OF c] by simp
    moreover have "list_ex failed (GetPods_ev mcsNamespace mcsLabels r # evs) \<longrightarrow> logs1 = []"
      using ih(3) Inr by simp
    ultimately show ?thesis by blast
  qed
qed


text \<open>
  C9. getMCSLogs always returns a nil error. When the listing of the pods or the reading
  of the logs of any one pod has failed, the logs it returns are empty. Its caller
  updateConfiguringStatusIfNeeded therefore always goes on to
  SetConfiguringStatusForHosts, which it calls last, with the hosts it was given and
  the logs that getMCSLogs returned.
\<close>

theorem getMCSLogs_best_effort:
  "\<exists>logs s1 evs. getMCSLogs c s = ((logs, None), s1) \<and> trace s1 = trace s @ evs \<and>
     (list_ex failed evs \<longrightarrow> logs = []) \<and>
     trace (updateConfiguringStatusIfNeeded c hosts s) =
       trace s @ evs @ [SetConfiguringStatusForHosts_ev hosts logs True ()]"
proof -
  from getMCSLogs_never_fails [of c s] obtain logs s1 evs where
    g: "getMCSLogs c s = ((logs, None), s1)" "trace s1 = trace s @ evs"
      "list_ex failed evs \<longrightarrow> logs = []"
    by blast
  have "trace (updateConfiguringStatusIfNeeded c hosts s) =
     trace s @ evs @ [SetConfiguringStatusForHosts_ev hosts logs True ()]"
    using g(1,2) by (simp add: updateConfiguringStatusIfNeeded_def call_snd_trace)
  then show ?thesis using g by blast
qed

lemma getMCSLogs_example:
  "getMCSLogs mcs_logs_down start =
     (([], None),
      \<lparr>world = 3,
       trace = [GetPods_ev mcsNamespace mcsLabels (Inr mcs_pods),
                GetPodLogs_ev mcsNamespace ''machine-config-server-1'' 300 (Inr ''10.0.0.7 GET /config/master''),
                GetPodLogs_ev mcsNamespace ''machine-config-server-2'' 300 (Inl ''container not found'')]\<rparr>)"
  by (simp add: getMCSLogs_def call_def mcs_logs_down_def quiet_def quiet_kc_def start_def
      mcs_pods_def generalWaitTimeoutInt_def)

theorem getMCSLogs_best_effort_witness:
  "\<exists>logs s1 evs. getMCSLogs mcs_logs_down start = ((logs, None), s1) \<and>
     trace s1 = trace start @ evs \<and> list_ex failed evs \<and> logs = [] \<and>
     trace (updateConfiguringStatusIfNeeded mcs_logs_down scenario_hosts start) =
       trace start @ evs @ [SetConfiguringStatusForHosts_ev scenario_hosts logs True ()]"
proof -
  from getMCSLogs_best_effort [of mcs_logs_down start scenario_hosts] obtain logs s1 evs where
    g: "getMCSLogs mcs_logs_down start = ((logs, None), s1)" "trace s1 = trace start @ evs"
      "list_ex failed evs \<longrightarrow> logs = []"
      "trace (updateConfiguringStatusIfNeeded mcs_logs_down scenario_hosts start) =
         trace start @ evs @ [SetConfiguringStatusForHosts_ev scenario_hosts logs True ()]"
    by blast
  have "list_ex failed evs"
    using g(1,2) unfolding getMCSLogs_example by (auto simp: start_def)
  then show ?thesis using g by blast
qed

subsection \<open>The helper at the end of an iteration\<close>




subsection \<open>The approval of certificate signing requests\<close>

lemma isCsrApproved_conditions_iff:
  "isCsrApproved_conditions conditions \<longleftrightarrow> CertificateApproved \<in> ConditionType ` set conditions"
  by (induction conditions) auto

lemma approveCsrs_trace:
  "\<exists>rs. length rs = length (filter (\<lambda>csr. \<not> isCsrApproved csr) csrs) \<and>
     trace (approveCsrs c csrs s) =
       trace s @ map2 ApproveCsr_ev (filter (\<lambda>csr. \<not> isCsrApproved csr) csrs) rs"
proof (induction csrs arbitrary: s)
  case Nil
  then show ?case by simp
next
  case (Cons csr csrs)
  show ?case
  proof (cases "isCsrApproved csr")
    case True
    then show ?thesis using Cons.IH [of s] by simp
  next
    case False
    let ?s1 = "snd (call (ApproveCsr (kc c) csr) (ApproveCsr_ev csr) s)"
    let ?r = "fst (call (ApproveCsr (kc c) csr) (ApproveCsr_ev csr) s)"
    from Cons.IH [of ?s1] obtain rs where
      rs: "length rs = length (filter (\<lambda>csr. \<not> isCsrApproved csr) csrs)"
        "trace (approveCsrs c csrs ?s1) =
           trace ?s1 @ map2 ApproveCsr_ev (filter (\<lambda>csr. \<not> isCsrApproved csr) csrs) rs"
      by blast
    show ?thesis
      by (rule exI [of _ "?r # rs"]) (simp add: False rs call_snd_trace)
  qed
qed

lemma approveCsrs_all_approved:
  "\<forall>csr \<in> set csrs. isCsrApproved csr \<Longrightarrow> approveCsrs c csrs s = s"
  by (induction csrs arbitrary: s) auto

lemma approveCsrs_state:
  "approveCsrs c csrs s =
     foldl (\<lambda>s csr. snd (call (ApproveCsr (kc c) csr) (ApproveCsr_ev csr) s)) s
       (filter (\<lambda>csr. \<not> isCsrApproved csr) csrs)"
  by (induction csrs arbitrary: s) simp_all

text \<open>
  C8. One pass of approveCsrs makes the call of ApproveCsr for each request of the list
  that has no condition of type Approved, in the order of the list, and makes no other
  call: the state after the pass is the state before it taken through these calls of
  the client, so the world is the one the client leaves and the trace holds each call
  with its result. A pass over requests that all have such a condition leaves the
  state as it was, so a second pass over a request that is already approved issues no
  second approve call.
\<close>

theorem approveCsrs_skips_approved:
  "(\<exists>rs. length rs = length (filter (\<lambda>csr. CertificateApproved \<notin> ConditionType ` set (Conditions csr)) csrs) \<and>
     trace (approveCsrs c csrs s) =
       trace s @ map2 ApproveCsr_ev
         (filter (\<lambda>csr. CertificateApproved \<notin> ConditionType ` set (Conditions csr)) csrs) rs) \<and>
   world (approveCsrs c csrs s) =
     foldl (\<lambda>w csr. snd (ApproveCsr (kc c) csr w)) (world s)
       (filter (\<lambda>csr. CertificateApproved \<notin> ConditionType ` set (Conditions csr)) csrs) \<and>
   approveCsrs c csrs s =
     foldl (\<lambda>s csr. snd (call (ApproveCsr (kc c) csr) (ApproveCsr_ev csr) s)) s
       (filter (\<lambda>csr. CertificateApproved \<notin> ConditionType ` set (Conditions csr)) csrs) \<and>
   ((\<forall>csr \<in> set csrs. CertificateApproved \<in> ConditionType ` set (Conditions csr)) \<longrightarrow>
      approveCsrs c csrs s = s)"
proof -
  have f: "(\<lambda>csr. \<not> isCsrApproved csr) =
      (\<lambda>csr. CertificateApproved \<notin> ConditionType ` set (Conditions csr))"
    by (simp add: isCsrApproved_def isCsrApproved_conditions_iff)
  note st = approveCsrs_state [of c csrs s, unfolded f]
  have w: "world (approveCsrs c csrs s) =
     foldl (\<lambda>w csr. snd (ApproveCsr (kc c) csr w)) (world s)
       (filter (\<lambda>csr. CertificateApproved \<notin> ConditionType ` set (Conditions csr)) csrs)"
    unfolding st by (rule foldl_call_world)
  show ?thesis
    using approveCsrs_trace [of csrs c s, unfolded f] approveCsrs_all_approved [of csrs c s] st w
    by (simp add: isCsrApproved_def isCsrApproved_conditions_iff)
qed

lemma approveCsrs_example:
  "approveCsrs quiet [csr_approved, csr_pending] start =
     \<lparr>world = 1, trace = [ApproveCsr_ev csr_pending None]\<rparr>"
  by (simp add: isCsrApproved_def csr_approved_def csr_pending_def CertificateApproved_def
      call_def quiet_def quiet_kc_def start_def)

theorem approveCsrs_skips_approved_witness:
  "(\<exists>rs. length rs = length (filter (\<lambda>csr. CertificateApproved \<notin> ConditionType ` set (Conditions csr)) [csr_approved, csr_pending]) \<and>
      trace (approveCsrs quiet [csr_approved, csr_pending] start) =
        trace start @ map2 ApproveCsr_ev
          (filter (\<lambda>csr. CertificateApproved \<notin> ConditionType ` set (Conditions csr)) [csr_approved, csr_pending]) rs) \<and>
   world (approveCsrs quiet [csr_approved, csr_pending] start) =
     foldl (\<lambda>w csr. snd (ApproveCsr (kc quiet) csr w)) (world start)
       (filter (\<lambda>csr. CertificateApproved \<notin> ConditionType ` set (Conditions csr)) [csr_approved, csr_pending]) \<and>
   approveCsrs quiet [csr_approved, csr_pending] start =
     foldl (\<lambda>s csr. snd (call (ApproveCsr (kc quiet) csr) (ApproveCsr_ev csr) s)) start
       (filter (\<lambda>csr. CertificateApproved \<notin> ConditionType ` set (Conditions csr)) [csr_approved, csr_pending]) \<and>
   filter (\<lambda>csr. CertificateApproved \<notin> ConditionType ` set (Conditions csr)) [csr_approved, csr_pending] =
     [csr_pending] \<and>
   approveCsrs quiet [csr_approved, csr_pending] start =
     \<lparr>world = 1, trace = [ApproveCsr_ev csr_pending None]\<rparr> \<and>
   CertificateApproved \<in> ConditionType ` set (Conditions csr_approved) \<and>
   approveCsrs quiet [csr_approved] start = start"
proof -
  have a: "CertificateApproved \<in> ConditionType ` set (Conditions csr_approved)"
    by (simp add: csr_approved_def CertificateApproved_def)
  have b: "CertificateApproved \<notin> ConditionType ` set (Conditions csr_pending)"
    by (simp add: csr_pending_def)
  have f: "filter (\<lambda>csr. CertificateApproved \<notin> ConditionType ` set (Conditions csr))
      [csr_approved, csr_pending] = [csr_pending]"
    using a b by simp
  have all: "\<forall>csr \<in> set [csr_approved]. CertificateApproved \<in> ConditionType ` set (Conditions csr)"
    using a by simp
  from approveCsrs_skips_approved [of "[csr_approved]" quiet start] all
  have 2: "approveCsrs quiet [csr_approved] start = start"
    by blast
  from approveCsrs_skips_approved [of "[csr_approved, csr_pending]" quiet start] f a 2 approveCsrs_example
  show ?thesis by blast
qed

subsection \<open>The synchronization of one bare-metal host\<close>

lemma ensureLastUpdated_trace:
  "ensureLastUpdated c bmh s = (bmh1, s1) \<Longrightarrow>
     trace s1 = trace s @ (if IsZero (LastUpdated (Status bmh)) then [Now_ev (fst (Now c (world s)))] else []) \<and>
     Annotations bmh1 = Annotations bmh \<and> BmhName bmh1 = BmhName bmh \<and>
     Status bmh1 = (Status bmh)\<lparr>LastUpdated :=
        (if IsZero (LastUpdated (Status bmh)) then Some (fst (Now c (world s))) else LastUpdated (Status bmh))\<rparr>"
  by (auto simp: ensureLastUpdated_def call_def split: if_splits prod.splits)

lemma updateBMHStatus_host_skip:
  "index (Annotations bmh) StatusAnnotation = [] \<Longrightarrow> updateBMHStatus_host c bmh acc = acc"
  by (simp add: updateBMHStatus_host_def split: prod.splits)

lemma index_removed: "index (m(k := None)) k = []"
  by (simp add: index_def)

lemma bmh_0_decodes:
  "unmarshalStatusAnnotation bmh_ctl (index (Annotations bmh_0) StatusAnnotation) =
     Inr \<lparr>LastUpdated = None, OperationalStatus = ''OK''\<rparr>"
  by (simp add: unmarshalStatusAnnotation_def bmh_ctl_def quiet_def bmh_0_def index_def)

lemma bmh_0_annotated: "index (Annotations bmh_0) StatusAnnotation \<noteq> []"
  by (simp add: bmh_0_def index_def bmh_payload_def)

lemma bmh_0_stamped:
  "ensureLastUpdated bmh_ctl (bmh_0\<lparr>Status := \<lparr>LastUpdated = None, OperationalStatus = ''OK''\<rparr>\<rparr>) start =
     (bmh_0\<lparr>Status := \<lparr>LastUpdated = Some 1600000000, OperationalStatus = ''OK''\<rparr>\<rparr>,
      \<lparr>world = 1, trace = [Now_ev 1600000000]\<rparr>)"
  by (simp add: ensureLastUpdated_def call_def bmh_ctl_def quiet_def start_def)

lemma bmh_0_committed:
  "call (UpdateBMHStatus (kc bmh_ctl) (bmh_0\<lparr>Status := \<lparr>LastUpdated = Some 1600000000, OperationalStatus = ''OK''\<rparr>\<rparr>))
     (UpdateBMHStatus_ev (bmh_0\<lparr>Status := \<lparr>LastUpdated = Some 1600000000, OperationalStatus = ''OK''\<rparr>\<rparr>))
     \<lparr>world = 1, trace = [Now_ev 1600000000]\<rparr> =
   (None, \<lparr>world = 2, trace = [Now_ev 1600000000,
      UpdateBMHStatus_ev (bmh_0\<lparr>Status := \<lparr>LastUpdated = Some 1600000000, OperationalStatus = ''OK''\<rparr>\<rparr>) None]\<rparr>)"
  by (simp add: call_def bmh_ctl_def quiet_def quiet_kc_def)

lemma bmh_0_synced_eq:
  "bmh_0\<lparr>Status := \<lparr>LastUpdated = Some 1600000000, OperationalStatus = ''OK''\<rparr>,
         Annotations := (Annotations bmh_0)(StatusAnnotation := None)\<rparr> = bmh_0_synced"
  by (simp add: bmh_0_def bmh_0_synced_def)

lemma bmh_0_removed:
  "call (UpdateBMH (kc bmh_ctl) bmh_0_synced) (UpdateBMH_ev bmh_0_synced)
     \<lparr>world = 2, trace = [Now_ev 1600000000,
      UpdateBMHStatus_ev (bmh_0\<lparr>Status := \<lparr>LastUpdated = Some 1600000000, OperationalStatus = ''OK''\<rparr>\<rparr>) None]\<rparr> =
   (None, \<lparr>world = 3, trace = [Now_ev 1600000000,
      UpdateBMHStatus_ev (bmh_0\<lparr>Status := \<lparr>LastUpdated = Some 1600000000, OperationalStatus = ''OK''\<rparr>\<rparr>) None,
      UpdateBMH_ev bmh_0_synced None]\<rparr>)"
  by (simp add: call_def bmh_ctl_def quiet_def quiet_kc_def)

text \<open>
  C3. A host carries a status annotation that decodes, and both the commit of the
  status and the removal of the annotation succeed. Then the body of the pass for this
  host makes the two calls in that order; the host it hands to UpdateBMH has no status
  annotation, and its status is the decoded payload, with the time of the clock as
  last-updated timestamp when the payload had a zero one. The body of a later pass for
  the host as it then is changes nothing: no call, the same state, the same flag.
\<close>

theorem host_synchronized_once:
  assumes a: "index (Annotations bmh) StatusAnnotation \<noteq> []"
    and d: "unmarshalStatusAnnotation c (index (Annotations bmh) StatusAnnotation) = Inr objStatus"
    and e: "ensureLastUpdated c (bmh\<lparr>Status := objStatus\<rparr>) s = (bmh1, s1)"
    and u: "call (UpdateBMHStatus (kc c) bmh1) (UpdateBMHStatus_ev bmh1) s1 = (None, s2)"
    and r: "call (UpdateBMH (kc c) (bmh1\<lparr>Annotations := (Annotations bmh)(StatusAnnotation := None)\<rparr>))
              (UpdateBMH_ev (bmh1\<lparr>Annotations := (Annotations bmh)(StatusAnnotation := None)\<rparr>)) s2 = (None, s3)"
  shows "updateBMHStatus_host c bmh (allUpdated, s) = (False, s3) \<and>
     trace s3 = trace s1 @
       [UpdateBMHStatus_ev bmh1 None,
        UpdateBMH_ev (bmh1\<lparr>Annotations := (Annotations bmh)(StatusAnnotation := None)\<rparr>) None] \<and>
     Annotations (bmh1\<lparr>Annotations := (Annotations bmh)(StatusAnnotation := None)\<rparr>) StatusAnnotation = None \<and>
     Status (bmh1\<lparr>Annotations := (Annotations bmh)(StatusAnnotation := None)\<rparr>) =
       objStatus\<lparr>LastUpdated :=
         (if IsZero (LastUpdated objStatus) then Some (fst (Now c (world s))) else LastUpdated objStatus)\<rparr> \<and>
     updateBMHStatus_host c (bmh1\<lparr>Annotations := (Annotations bmh)(StatusAnnotation := None)\<rparr>) (allUpdated1, s4) =
       (allUpdated1, s4)"
proof -
  have 1: "updateBMHStatus_host c bmh (allUpdated, s) = (False, s3)"
    using a d e u r by (simp add: updateBMHStatus_host_def)
  have 2: "trace s3 = trace s1 @
       [UpdateBMHStatus_ev bmh1 None,
        UpdateBMH_ev (bmh1\<lparr>Annotations := (Annotations bmh)(StatusAnnotation := None)\<rparr>) None]"
    using call_trace [OF u] call_trace [OF r] by simp
  have 3: "Status bmh1 = objStatus\<lparr>LastUpdated :=
         (if IsZero (LastUpdated objStatus) then Some (fst (Now c (world s))) else LastUpdated objStatus)\<rparr>"
    using ensureLastUpdated_trace [OF e] by simp
  have 4: "updateBMHStatus_host c (bmh1\<lparr>Annotations := (Annotations bmh)(StatusAnnotation := None)\<rparr>) (allUpdated1, s4) =
       (allUpdated1, s4)"
    by (rule updateBMHStatus_host_skip) (simp add: index_removed)
  show ?thesis using 1 2 3 4 by simp
qed

text \<open>
  The payload has no timestamp: the status that is committed carries the time of the
  clock, so it is not the decoded payload.
\<close>

theorem committed_status_differs_from_undated_payload:
  "unmarshalStatusAnnotation bmh_ctl (index (Annotations bmh_0) StatusAnnotation) =
     Inr \<lparr>LastUpdated = None, OperationalStatus = ''OK''\<rparr> \<and>
   updateBMHStatus bmh_ctl [bmh_0] start =
     (False, \<lparr>world = 3, trace = [Now_ev 1600000000,
        UpdateBMHStatus_ev (bmh_0\<lparr>Status := \<lparr>LastUpdated = Some 1600000000, OperationalStatus = ''OK''\<rparr>\<rparr>) None,
        UpdateBMH_ev bmh_0_synced None]\<rparr>) \<and>
   Status bmh_0_synced \<noteq> \<lparr>LastUpdated = None, OperationalStatus = ''OK''\<rparr>"
proof -
  have "updateBMHStatus bmh_ctl [bmh_0] start =
     (False, \<lparr>world = 3, trace = [Now_ev 1600000000,
        UpdateBMHStatus_ev (bmh_0\<lparr>Status := \<lparr>LastUpdated = Some 1600000000, OperationalStatus = ''OK''\<rparr>\<rparr>) None,
        UpdateBMH_ev bmh_0_synced None]\<rparr>)"
    by (simp add: updateBMHStatus_def updateBMHStatus_host_def unmarshalStatusAnnotation_def
        ensureLastUpdated_def call_def bmh_ctl_def quiet_def quiet_kc_def
        start_def index_def bmh_0_def bmh_0_synced_def bmh_payload_def)
  moreover have "Status bmh_0_synced \<noteq> \<lparr>LastUpdated = None, OperationalStatus = ''OK''\<rparr>"
    by (simp add: bmh_0_synced_def)
  ultimately show ?thesis using bmh_0_decodes by simp
qed

theorem host_synchronized_once_witness:
  "index (Annotations bmh_0) StatusAnnotation \<noteq> [] \<and>
   unmarshalStatusAnnotation bmh_ctl (index (Annotations bmh_0) StatusAnnotation) =
     Inr \<lparr>LastUpdated = None, OperationalStatus = ''OK''\<rparr> \<and>
   updateBMHStatus_host bmh_ctl bmh_0 (True, start) =
     (False, \<lparr>world = 3, trace = [Now_ev 1600000000,
        UpdateBMHStatus_ev (bmh_0\<lparr>Status := \<lparr>LastUpdated = Some 1600000000, OperationalStatus = ''OK''\<rparr>\<rparr>) None,
        UpdateBMH_ev bmh_0_synced None]\<rparr>) \<and>
   Annotations bmh_0_synced StatusAnnotation = None \<and>
   Status bmh_0_synced = \<lparr>LastUpdated = Some 1600000000, OperationalStatus = ''OK''\<rparr> \<and>
   updateBMHStatus_host bmh_ctl bmh_0_synced (True, start) = (True, start)"
  using host_synchronized_once [OF bmh_0_annotated bmh_0_decodes bmh_0_stamped bmh_0_committed,
      unfolded bmh_0_synced_eq, OF bmh_0_removed, of True True start]
    bmh_0_annotated bmh_0_decodes
  by (simp add: bmh_0_synced_eq bmh_ctl_def quiet_def start_def)



subsection \<open>The order of commit and removal in a pass\<close>

lemma removal_after_commit_append:
  assumes "removal_after_commit xs" and "removal_after_commit ys"
  shows "removal_after_commit (xs @ ys)"
  unfolding removal_after_commit_def
proof (intro allI impI)
  fix i bmh err
  assume i: "i < length (xs @ ys)" and ev: "(xs @ ys) ! i = UpdateBMH_ev bmh err"
  show "0 < i \<and> (\<exists>bmh1. (xs @ ys) ! (i - 1) = UpdateBMHStatus_ev bmh1 None \<and>
          bmh = bmh1\<lparr>Annotations := (Annotations bmh1)(StatusAnnotation := None)\<rparr>)"
  proof (cases "i < length xs")
    case True
    then show ?thesis
      using assms(1) ev by (auto simp: removal_after_commit_def nth_append)
  next
    case False
    then have j: "i - length xs < length ys" and evj: "ys ! (i - length xs) = UpdateBMH_ev bmh err"
      using i ev by (auto simp: nth_append)
    from assms(2) j evj have p: "0 < i - length xs"
      and q: "\<exists>bmh1. ys ! (i - length xs - 1) = UpdateBMHStatus_ev bmh1 None \<and>
          bmh = bmh1\<lparr>Annotations := (Annotations bmh1)(StatusAnnotation := None)\<rparr>"
      unfolding removal_after_commit_def by blast+
    from p have "\<not> i - 1 < length xs" "i - 1 - length xs = i - length xs - 1" by arith+
    then show ?thesis using p q by (auto simp: nth_append)
  qed
qed

lemma removal_after_commit_Nil: "removal_after_commit []"
  by (simp add: removal_after_commit_def)

lemma removal_after_commit_Now: "removal_after_commit [Now_ev t]"
  by (simp add: removal_after_commit_def)

lemma removal_after_commit_failed: "removal_after_commit [UpdateBMHStatus_ev bmh1 err]"
  by (simp add: removal_after_commit_def)

lemma removal_after_commit_pair:
  "removal_after_commit
     [UpdateBMHStatus_ev bmh1 None,
      UpdateBMH_ev (bmh1\<lparr>Annotations := (Annotations bmh1)(StatusAnnotation := None)\<rparr>) err]"
  by (auto simp: removal_after_commit_def less_Suc_eq)

lemma updateBMHStatus_host_events:
  "\<exists>evs. trace (snd (updateBMHStatus_host c bmh (allUpdated, s))) = trace s @ evs \<and>
     removal_after_commit evs \<and>
     (fst (updateBMHStatus_host c bmh (allUpdated, s)) \<longrightarrow> allUpdated \<and> evs = [])"
proof (cases "index (Annotations bmh) StatusAnnotation = []")
  case True
  then show ?thesis by (simp add: updateBMHStatus_host_skip removal_after_commit_Nil)
next
  case a: False
  show ?thesis
  proof (cases "unmarshalStatusAnnotation c (index (Annotations bmh) StatusAnnotation)")
    case (Inl err)
    then have "updateBMHStatus_host c bmh (allUpdated, s) = (False, s)"
      using a by (simp add: updateBMHStatus_host_def)
    then show ?thesis by (simp add: removal_after_commit_Nil)
  next
    case d: (Inr objStatus)
    obtain bmh1 s1 where e: "ensureLastUpdated c (bmh\<lparr>Status := objStatus\<rparr>) s = (bmh1, s1)"
      by (cases "ensureLastUpdated c (bmh\<lparr>Status := objStatus\<rparr>) s")
    obtain err s2 where u: "call (UpdateBMHStatus (kc c) bmh1) (UpdateBMHStatus_ev bmh1) s1 = (err, s2)"
      by (cases "call (UpdateBMHStatus (kc c) bmh1) (UpdateBMHStatus_ev bmh1) s1")
    let ?now = "if IsZero (LastUpdated objStatus) then [Now_ev (fst (Now c (world s)))] else []"
    have t1: "trace s1 = trace s @ ?now" and an: "Annotations bmh1 = Annotations bmh"
      using ensureLastUpdated_trace [OF e] by simp_all
    have n: "removal_after_commit ?now"
      by (simp add: removal_after_commit_Nil removal_after_commit_Now)
    show ?thesis
    proof (cases err)
      case None
      let ?bmh2 = "bmh1\<lparr>Annotations := (Annotations bmh)(StatusAnnotation := None)\<rparr>"
      obtain err3 s3 where r: "call (UpdateBMH (kc c) ?bmh2) (UpdateBMH_ev ?bmh2) s2 = (err3, s3)"
        by (cases "call (UpdateBMH (kc c) ?bmh2) (UpdateBMH_ev ?bmh2) s2")
      have h: "updateBMHStatus_host c bmh (allUpdated, s) = (False, s3)"
        using a d e u r None by (simp add: updateBMHStatus_host_def)
      have "trace s3 = trace s @ ?now @ [UpdateBMHStatus_ev bmh1 None, UpdateBMH_ev ?bmh2 err3]"
        using call_trace [OF u] call_trace [OF r] t1 None by simp
      moreover have "removal_after_commit (?now @ [UpdateBMHStatus_ev bmh1 None, UpdateBMH_ev ?bmh2 err3])"
        using removal_after_commit_append [OF n removal_after_commit_pair [of bmh1 err3]] an by simp
      ultimately show ?thesis using h by (intro exI [of _ "?now @ [UpdateBMHStatus_ev bmh1 None, UpdateBMH_ev ?bmh2 err3]"]) simp
    next
      case (Some x)
      have h: "updateBMHStatus_host c bmh (allUpdated, s) = (False, s2)"
        using a d e u Some by (simp add: updateBMHStatus_host_def)
      have "trace s2 = trace s @ ?now @ [UpdateBMHStatus_ev bmh1 err]"
        using call_trace [OF u] t1 by simp
      moreover have "removal_after_commit (?now @ [UpdateBMHStatus_ev bmh1 err])"
        using removal_after_commit_append [OF n removal_after_commit_failed [of bmh1 err]] .
      ultimately show ?thesis using h by (intro exI [of _ "?now @ [UpdateBMHStatus_ev bmh1 err]"]) simp
    qed
  qed
qed

lemma updateBMHStatus_items_events:
  "\<exists>evs. trace (snd (updateBMHStatus_items c bmhs (allUpdated, s))) = trace s @ evs \<and>
     removal_after_commit evs \<and>
     (fst (updateBMHStatus_items c bmhs (allUpdated, s)) \<longrightarrow> allUpdated \<and> evs = [])"
proof (induction bmhs arbitrary: allUpdated s)
  case Nil
  then show ?case by (simp add: removal_after_commit_Nil)
next
  case (Cons bmh bmhs)
  obtain a1 s1 where h: "updateBMHStatus_host c bmh (allUpdated, s) = (a1, s1)"
    by (cases "updateBMHStatus_host c bmh (allUpdated, s)")
  from updateBMHStatus_host_events [of c bmh allUpdated s] h obtain evs1 where
    1: "trace s1 = trace s @ evs1" "removal_after_commit evs1" "a1 \<longrightarrow> allUpdated \<and> evs1 = []"
    by auto
  from Cons.IH [of a1 s1] obtain evs2 where
    2: "trace (snd (updateBMHStatus_items c bmhs (a1, s1))) = trace s1 @ evs2"
      "removal_after_commit evs2"
      "fst (updateBMHStatus_items c bmhs (a1, s1)) \<longrightarrow> a1 \<and> evs2 = []"
    by blast
  show ?case
    using h 1 2 removal_after_commit_append [OF 1(2) 2(2)]
    by (intro exI [of _ "evs1 @ evs2"]) auto
qed

lemma UpdateBMHs_iteration_retries:
  assumes "call (IsMetalProvisioningExists (kc c)) IsMetalProvisioningExists_ev s = (Inr False, s1)"
    and "call (ListBMHs (kc c)) ListBMHs_ev s1 = (Inr bmhs, s2)"
    and "\<not> fst (updateBMHStatus c bmhs s2)"
  shows "UpdateBMHs_iteration c s = Continue (snd (updateBMHStatus c bmhs s2))"
  using assms by (cases "updateBMHStatus c bmhs s2") (simp add: UpdateBMHs_iteration_def)

text \<open>
  C4. In the calls of one pass of updateBMHStatus, every UpdateBMH (the removal of the
  annotation) comes right after an UpdateBMHStatus that succeeded, and is for that
  same host without its status annotation; so no removal is attempted after a commit
  that failed. When any call of the pass has failed, the pass returns false, and
  UpdateBMHs runs another pass on a later tick.
\<close>

theorem annotation_removed_only_after_commit:
  "\<exists>evs. trace (snd (updateBMHStatus c bmhList s)) = trace s @ evs \<and>
     (\<forall>i<length evs. \<forall>bmh err. evs ! i = UpdateBMH_ev bmh err \<longrightarrow>
        0 < i \<and> (\<exists>bmh1. evs ! (i - 1) = UpdateBMHStatus_ev bmh1 None \<and>
          bmh = bmh1\<lparr>Annotations := (Annotations bmh1)(StatusAnnotation := None)\<rparr>)) \<and>
     (list_ex failed evs \<longrightarrow> \<not> fst (updateBMHStatus c bmhList s))"
proof -
  from updateBMHStatus_items_events [of c bmhList True s] obtain evs where
    e: "trace (snd (updateBMHStatus c bmhList s)) = trace s @ evs" "removal_after_commit evs"
      "fst (updateBMHStatus c bmhList s) \<longrightarrow> evs = []"
    by (auto simp: updateBMHStatus_def)
  have "list_ex failed evs \<longrightarrow> \<not> fst (updateBMHStatus c bmhList s)"
    using e(3) by auto
  then show ?thesis using e(1,2) unfolding removal_after_commit_def by blast
qed

lemma updateBMHStatus_example:
  "updateBMHStatus bmh_commit_fails [bmh_1, bmh_0] start =
     (False, \<lparr>world = 4, trace =
        [UpdateBMHStatus_ev (bmh_1\<lparr>Status := \<lparr>LastUpdated = Some 1598918400, OperationalStatus = ''OK''\<rparr>\<rparr>) (Some ''conflict''),
         Now_ev 1600000000,
         UpdateBMHStatus_ev (bmh_0\<lparr>Status := \<lparr>LastUpdated = Some 1600000000, OperationalStatus = ''OK''\<rparr>\<rparr>) None,
         UpdateBMH_ev bmh_0_synced None]\<rparr>)"
  by (simp add: updateBMHStatus_def updateBMHStatus_host_def unmarshalStatusAnnotation_def
      ensureLastUpdated_def call_def bmh_commit_fails_def bmh_ctl_def quiet_def quiet_kc_def
      start_def index_def bmh_0_def bmh_1_def bmh_0_synced_def bmh_payload_def
      bmh_payload_dated_def)

theorem annotation_removed_only_after_commit_witness:
  "\<exists>evs. trace (snd (updateBMHStatus bmh_commit_fails [bmh_1, bmh_0] start)) = trace start @ evs \<and>
     length evs = 4 \<and> evs ! 3 = UpdateBMH_ev bmh_0_synced None \<and>
     evs ! 2 = UpdateBMHStatus_ev (bmh_0\<lparr>Status := \<lparr>LastUpdated = Some 1600000000, OperationalStatus = ''OK''\<rparr>\<rparr>) None \<and>
     list_ex failed evs \<and> \<not> fst (updateBMHStatus bmh_commit_fails [bmh_1, bmh_0] start)"
proof -
  from annotation_removed_only_after_commit [of bmh_commit_fails "[bmh_1, bmh_0]" start] obtain evs where
    e: "trace (snd (updateBMHStatus bmh_commit_fails [bmh_1, bmh_0] start)) = trace start @ evs"
      "list_ex failed evs \<longrightarrow> \<not> fst (updateBMHStatus bmh_commit_fails [bmh_1, bmh_0] start)"
    by blast
  have evs: "evs = [UpdateBMHStatus_ev (bmh_1\<lparr>Status := \<lparr>LastUpdated = Some 1598918400, OperationalStatus = ''OK''\<rparr>\<rparr>) (Some ''conflict''),
         Now_ev 1600000000,
         UpdateBMHStatus_ev (bmh_0\<lparr>Status := \<lparr>LastUpdated = Some 1600000000, OperationalStatus = ''OK''\<rparr>\<rparr>) None,
         UpdateBMH_ev bmh_0_synced None]"
    using e(1) unfolding updateBMHStatus_example by (simp add: start_def)
  have "list_ex failed evs" unfolding evs by simp
  then show ?thesis using e evs by (intro exI [of _ evs]) simp
qed

subsection \<open>The loops of PostInstallConfigs\<close>

lemma wait_phase:
  "\<exists>evs. trace (state_of (PostInstallConfigs_wait fuel c s)) = trace s @ evs \<and>
     foldl advance Gate evs = (if has_returned (PostInstallConfigs_wait fuel c s) then ReadCA else Gate) \<and>
     \<not> list_ex is_report evs"
proof (induction fuel arbitrary: s)
  case 0
  then show ?case by simp
next
  case (Suc fuel)
  obtain r s1 where c: "call (GetCluster (ic c)) GetCluster_ev s = (r, s1)"
    by (cases "call (GetCluster (ic c)) GetCluster_ev s")
  note t = call_trace [OF c]
  from Suc.IH [of s1] obtain evs where
    ih: "trace (state_of (PostInstallConfigs_wait fuel c s1)) = trace s1 @ evs"
      "foldl advance Gate evs = (if has_returned (PostInstallConfigs_wait fuel c s1) then ReadCA else Gate)"
      "\<not> list_ex is_report evs"
    by blast
  show ?case
  proof (cases "\<exists>cluster. r = Inr cluster \<and> ClusterStatus cluster = ClusterStatusFinalizing")
    case True
    then show ?thesis using c t by (intro exI [of _ "[GetCluster_ev r]"]) auto
  next
    case False
    then have "PostInstallConfigs_wait (Suc fuel) c s = PostInstallConfigs_wait fuel c s1"
      and "advance Gate (GetCluster_ev r) = Gate"
      using c by (cases r; simp)+
    then show ?thesis using ih t by (intro exI [of _ "GetCluster_ev r # evs"]) simp
  qed
qed

lemma addRouterCAToClusterCA_phase:
  "\<exists>evs. trace (state_of (addRouterCAToClusterCA fuel c s)) = trace s @ evs \<and>
     foldl advance ReadCA evs = (if has_returned (addRouterCAToClusterCA fuel c s) then Unpatch else ReadCA) \<and>
     \<not> list_ex is_report evs"
proof (induction fuel arbitrary: s)
  case 0
  then show ?case by simp
next
  case (Suc fuel)
  obtain r s1 where c: "call (GetConfigMap (kc c) cmNamespace cmName) (GetConfigMap_ev cmNamespace cmName) s = (r, s1)"
    by (cases "call (GetConfigMap (kc c) cmNamespace cmName) (GetConfigMap_ev cmNamespace cmName) s")
  note t = call_trace [OF c]
  show ?case
  proof (cases r)
    case (Inl err)
    from Suc.IH [of s1] obtain evs where
      ih: "trace (state_of (addRouterCAToClusterCA fuel c s1)) = trace s1 @ evs"
        "foldl advance ReadCA evs = (if has_returned (addRouterCAToClusterCA fuel c s1) then Unpatch else ReadCA)"
        "\<not> list_ex is_report evs"
      by blast
    have "addRouterCAToClusterCA (Suc fuel) c s = addRouterCAToClusterCA fuel c s1"
      using c Inl by simp
    then show ?thesis
      using ih t Inl by (intro exI [of _ "GetConfigMap_ev cmNamespace cmName r # evs"]) simp
  next
    case (Inr caConfigMap)
    let ?ca = "index (Data caConfigMap) ''ca-bundle.crt''"
    obtain err s2 where u: "call (UploadIngressCa (ic c) ?ca (ClusterID c)) (UploadIngressCa_ev ?ca (ClusterID c)) s1 = (err, s2)"
      by (cases "call (UploadIngressCa (ic c) ?ca (ClusterID c)) (UploadIngressCa_ev ?ca (ClusterID c)) s1")
    note t2 = call_trace [OF u]
    show ?thesis
    proof (cases err)
      case None
      have "addRouterCAToClusterCA (Suc fuel) c s = Returned s2"
        using c Inr u None by simp
      then show ?thesis
        using t t2 Inr None
        by (intro exI [of _ "[GetConfigMap_ev cmNamespace cmName r, UploadIngressCa_ev ?ca (ClusterID c) err]"]) simp
    next
      case (Some x)
      from Suc.IH [of s2] obtain evs where
        ih: "trace (state_of (addRouterCAToClusterCA fuel c s2)) = trace s2 @ evs"
          "foldl advance ReadCA evs = (if has_returned (addRouterCAToClusterCA fuel c s2) then Unpatch else ReadCA)"
          "\<not> list_ex is_report evs"
        by blast
      have "addRouterCAToClusterCA (Suc fuel) c s = addRouterCAToClusterCA fuel c s2"
        using c Inr u Some by simp
      then show ?thesis
        using ih t t2 Inr Some
        by (intro exI [of _ "GetConfigMap_ev cmNamespace cmName r # UploadIngressCa_ev ?ca (ClusterID c) err # evs"]) simp
    qed
  qed
qed

lemma unpatchEtcd_phase:
  "\<exists>evs. trace (state_of (unpatchEtcd fuel c s)) = trace s @ evs \<and>
     foldl advance Unpatch evs = (if has_returned (unpatchEtcd fuel c s) then Console else Unpatch) \<and>
     \<not> list_ex is_report evs"
proof (induction fuel arbitrary: s)
  case 0
  then show ?case by simp
next
  case (Suc fuel)
  obtain err s1 where c: "call (UnPatchEtcd (kc c)) UnPatchEtcd_ev s = (err, s1)"
    by (cases "call (UnPatchEtcd (kc c)) UnPatchEtcd_ev s")
  note t = call_trace [OF c]
  show ?case
  proof (cases err)
    case None
    then have "unpatchEtcd (Suc fuel) c s = Returned s1" using c by simp
    then show ?thesis using t None by (intro exI [of _ "[UnPatchEtcd_ev err]"]) simp
  next
    case (Some x)
    from Suc.IH [of s1] obtain evs where
      ih: "trace (state_of (unpatchEtcd fuel c s1)) = trace s1 @ evs"
        "foldl advance Unpatch evs = (if has_returned (unpatchEtcd fuel c s1) then Console else Unpatch)"
        "\<not> list_ex is_report evs"
      by blast
    have "unpatchEtcd (Suc fuel) c s = unpatchEtcd fuel c s1" using c Some by simp
    then show ?thesis using ih t Some by (intro exI [of _ "UnPatchEtcd_ev err # evs"]) simp
  qed
qed

lemma waitForConsole_phase:
  "\<exists>evs. trace (state_of (waitForConsole fuel c s)) = trace s @ evs \<and>
     foldl advance Console evs = (if has_returned (waitForConsole fuel c s) then Report else Console) \<and>
     \<not> list_ex is_report evs"
proof (induction fuel arbitrary: s)
  case 0
  then show ?case by simp
next
  case (Suc fuel)
  obtain r s1 where c: "call (GetPods (kc c) consoleNamespace consoleLabels) (GetPods_ev consoleNamespace consoleLabels) s = (r, s1)"
    by (cases "call (GetPods (kc c) consoleNamespace consoleLabels) (GetPods_ev consoleNamespace consoleLabels) s")
  note t = call_trace [OF c]
  from Suc.IH [of s1] obtain evs where
    ih: "trace (state_of (waitForConsole fuel c s1)) = trace s1 @ evs"
      "foldl advance Console evs = (if has_returned (waitForConsole fuel c s1) then Report else Console)"
      "\<not> list_ex is_report evs"
    by blast
  show ?case
  proof (cases "\<exists>pods. r = Inr pods \<and> list_ex (\<lambda>pod. PodPhase pod = ''Running'') pods")
    case True
    then have "waitForConsole (Suc fuel) c s = Returned s1" using c by auto
    then show ?thesis
      using t True by (intro exI [of _ "[GetPods_ev consoleNamespace consoleLabels r]"]) auto
  next
    case False
    then have "waitForConsole (Suc fuel) c s = waitForConsole fuel c s1"
      and "advance Console (GetPods_ev consoleNamespace consoleLabels r) = Console"
      using c by (cases r; simp)+
    then show ?thesis
      using ih t by (intro exI [of _ "GetPods_ev consoleNamespace consoleLabels r # evs"]) simp
  qed
qed

lemma sendCompleteInstallation_phase:
  "\<exists>evs. trace (state_of (sendCompleteInstallation fuel c isSuccess errorInfo s)) = trace s @ evs \<and>
     foldl advance Report evs =
       (if has_returned (sendCompleteInstallation fuel c isSuccess errorInfo s) then Done else Report) \<and>
     (\<forall>ev \<in> set evs. \<exists>err. ev = CompleteInstallation_ev (ClusterID c) isSuccess errorInfo err)"
proof (induction fuel arbitrary: s)
  case 0
  then show ?case by simp
next
  case (Suc fuel)
  obtain err s1 where c: "call (CompleteInstallation (ic c) (ClusterID c) isSuccess errorInfo)
             (CompleteInstallation_ev (ClusterID c) isSuccess errorInfo) s = (err, s1)"
    by (cases "call (CompleteInstallation (ic c) (ClusterID c) isSuccess errorInfo)
             (CompleteInstallation_ev (ClusterID c) isSuccess errorInfo) s")
  note t = call_trace [OF c]
  show ?case
  proof (cases err)
    case None
    then have "sendCompleteInstallation (Suc fuel) c isSuccess errorInfo s = Returned s1"
      using c by simp
    then show ?thesis
      using t None by (intro exI [of _ "[CompleteInstallation_ev (ClusterID c) isSuccess errorInfo err]"]) simp
  next
    case (Some x)
    from Suc.IH [of s1] obtain evs where
      ih: "trace (state_of (sendCompleteInstallation fuel c isSuccess errorInfo s1)) = trace s1 @ evs"
        "foldl advance Report evs =
           (if has_returned (sendCompleteInstallation fuel c isSuccess errorInfo s1) then Done else Report)"
        "\<forall>ev \<in> set evs. \<exists>err. ev = CompleteInstallation_ev (ClusterID c) isSuccess errorInfo err"
      by blast
    have "sendCompleteInstallation (Suc fuel) c isSuccess errorInfo s =
        sendCompleteInstallation fuel c isSuccess errorInfo s1"
      using c Some by simp
    then show ?thesis
      using ih t Some
      by (intro exI [of _ "CompleteInstallation_ev (ClusterID c) isSuccess errorInfo err # evs"]) simp
  qed
qed


lemma stage_then:
  assumes 1: "\<exists>evs. trace (state_of r) = trace s @ evs \<and>
       foldl advance p evs = (if has_returned r then q else p) \<and> \<not> list_ex is_report evs"
    and 2: "\<And>s1. \<exists>evs. trace (state_of (f s1)) = trace s1 @ evs \<and>
       foldl advance q evs \<noteq> Bad \<and> (has_returned (f s1) \<longleftrightarrow> foldl advance q evs = Done) \<and>
       (\<forall>ev \<in> set evs. is_report ev \<longrightarrow> (\<exists>err. ev = CompleteInstallation_ev cid True [] err))"
    and p: "p \<noteq> Bad" "p \<noteq> Done"
  shows "\<exists>evs. trace (state_of (and_then r f)) = trace s @ evs \<and>
       foldl advance p evs \<noteq> Bad \<and> (has_returned (and_then r f) \<longleftrightarrow> foldl advance p evs = Done) \<and>
       (\<forall>ev \<in> set evs. is_report ev \<longrightarrow> (\<exists>err. ev = CompleteInstallation_ev cid True [] err))"
proof -
  from 1 obtain evs1 where
    a: "trace (state_of r) = trace s @ evs1"
      "foldl advance p evs1 = (if has_returned r then q else p)" "\<not> list_ex is_report evs1"
    by blast
  show ?thesis
  proof (cases r)
    case (Running s1)
    then show ?thesis
      using a p by (intro exI [of _ evs1]) (auto simp: and_then_def list_ex_iff)
  next
    case (Returned s1)
    from 2 [of s1] obtain evs2 where
      b: "trace (state_of (f s1)) = trace s1 @ evs2" "foldl advance q evs2 \<noteq> Bad"
        "has_returned (f s1) \<longleftrightarrow> foldl advance q evs2 = Done"
        "\<forall>ev \<in> set evs2. is_report ev \<longrightarrow> (\<exists>err. ev = CompleteInstallation_ev cid True [] err)"
      by blast
    show ?thesis
      using a b Returned by (intro exI [of _ "evs1 @ evs2"]) (auto simp: and_then_def list_ex_iff)
  qed
qed

lemma report_stage:
  "\<exists>evs. trace (state_of (sendCompleteInstallation fuel c True [] s)) = trace s @ evs \<and>
       foldl advance Report evs \<noteq> Bad \<and>
       (has_returned (sendCompleteInstallation fuel c True [] s) \<longleftrightarrow> foldl advance Report evs = Done) \<and>
       (\<forall>ev \<in> set evs. is_report ev \<longrightarrow> (\<exists>err. ev = CompleteInstallation_ev (ClusterID c) True [] err))"
proof -
  from sendCompleteInstallation_phase [of fuel c True "[]" s] obtain evs where
    e: "trace (state_of (sendCompleteInstallation fuel c True [] s)) = trace s @ evs"
     "foldl advance Report evs =
       (if has_returned (sendCompleteInstallation fuel c True [] s) then Done else Report)"
     "\<forall>ev \<in> set evs. \<exists>err. ev = CompleteInstallation_ev (ClusterID c) True [] err"
    by blast
  show ?thesis using e by (intro exI [of _ evs]) auto
qed

lemma PostInstallConfigs_phase:
  "\<exists>evs. trace (state_of (PostInstallConfigs fuel c s)) = trace s @ evs \<and>
       foldl advance Gate evs \<noteq> Bad \<and>
       (has_returned (PostInstallConfigs fuel c s) \<longleftrightarrow> foldl advance Gate evs = Done) \<and>
       (\<forall>ev \<in> set evs. is_report ev \<longrightarrow> (\<exists>err. ev = CompleteInstallation_ev (ClusterID c) True [] err))"
  unfolding PostInstallConfigs_def
  by (intro stage_then [OF wait_phase] stage_then [OF addRouterCAToClusterCA_phase]
      stage_then [OF unpatchEtcd_phase] stage_then [OF waitForConsole_phase] report_stage) simp_all

subsection \<open>What the monitor guarantees\<close>

lemma advance_Bad: "advance Bad ev = Bad"
  by (cases ev) simp_all

lemma foldl_advance_Bad: "foldl advance Bad evs = Bad"
  by (induction evs) (simp_all add: advance_Bad)

lemma advance_step:
  "advance p ev \<noteq> Bad \<Longrightarrow> step_of ev = step_of_phase p \<and> step_of_phase p \<le> step_of_phase (advance p ev)"
  by (cases ev) (auto split: if_splits sum.splits)

lemma monitor_sorted:
  "foldl advance p evs \<noteq> Bad \<Longrightarrow>
     sorted (map step_of evs) \<and> (\<forall>ev \<in> set evs. step_of_phase p \<le> step_of ev)"
proof (induction evs arbitrary: p)
  case Nil
  then show ?case by simp
next
  case (Cons ev evs)
  then have nb: "advance p ev \<noteq> Bad"
    using foldl_advance_Bad by (cases "advance p ev = Bad") auto
  from Cons.IH [of "advance p ev"] Cons.prems
  have ih: "sorted (map step_of evs)" "\<forall>e \<in> set evs. step_of_phase (advance p ev) \<le> step_of e"
    by simp_all
  from advance_step [OF nb] ih show ?case by fastforce
qed


lemma advance_not_Bad:
  "foldl advance p (ev # evs) \<noteq> Bad \<Longrightarrow> advance p ev \<noteq> Bad \<and> foldl advance (advance p ev) evs \<noteq> Bad"
  using foldl_advance_Bad by (cases "advance p ev = Bad") auto

lemma advance_Done: "advance Done ev = Bad"
  by (cases ev) simp_all

lemma monitor_Done: "foldl advance Done evs \<noteq> Bad \<Longrightarrow> evs = []"
  by (cases evs) (simp_all add: advance_Done foldl_advance_Bad)

lemma monitor_left_gate:
  assumes "foldl advance p evs \<noteq> Bad" and "p \<noteq> Gate" and "ev \<in> set evs"
  shows "step_of ev \<noteq> 1"
proof -
  have "p \<noteq> Bad" using assms(1) foldl_advance_Bad by auto
  then have "2 \<le> step_of_phase p" using assms(2) by (cases p) simp_all
  moreover have "step_of_phase p \<le> step_of ev"
    using monitor_sorted [OF assms(1)] assms(3) by blast
  ultimately show ?thesis by simp
qed

lemma advance_Gate:
  "advance Gate ev \<noteq> Bad \<Longrightarrow>
     step_of ev = 1 \<and> advance Gate ev = (if observes_finalizing ev then ReadCA else Gate)"
  by (cases ev) (auto split: if_splits sum.splits)

lemma monitor_finalizing_first:
  "foldl advance Gate evs \<noteq> Bad \<Longrightarrow> i < length evs \<Longrightarrow> 2 \<le> step_of (evs ! i) \<Longrightarrow>
     \<exists>j<i. observes_finalizing (evs ! j)"
proof (induction evs arbitrary: i)
  case Nil
  then show ?case by simp
next
  case (Cons ev evs)
  from advance_not_Bad [OF Cons.prems(1)] have nb: "advance Gate ev \<noteq> Bad"
    and rest: "foldl advance (advance Gate ev) evs \<noteq> Bad" by simp_all
  note g = advance_Gate [OF nb]
  from g Cons.prems(3) obtain k where i: "i = Suc k" by (cases i) auto
  show ?case
  proof (cases "observes_finalizing ev")
    case True
    then show ?thesis using i by (intro exI [of _ 0]) simp
  next
    case False
    then have "foldl advance Gate evs \<noteq> Bad" using g rest by simp
    from Cons.IH [OF this, of k] Cons.prems(2,3) i
    obtain j where "j < k" "observes_finalizing (evs ! j)" by auto
    then show ?thesis using i by (intro exI [of _ "Suc j"]) simp
  qed
qed

lemma monitor_gate_left_at_finalizing:
  "foldl advance Gate evs \<noteq> Bad \<Longrightarrow> j < i \<Longrightarrow> i < length evs \<Longrightarrow>
     observes_finalizing (evs ! j) \<Longrightarrow> step_of (evs ! i) \<noteq> 1"
proof (induction evs arbitrary: i j)
  case Nil
  then show ?case by simp
next
  case (Cons ev evs)
  from advance_not_Bad [OF Cons.prems(1)] have nb: "advance Gate ev \<noteq> Bad"
    and rest: "foldl advance (advance Gate ev) evs \<noteq> Bad" by simp_all
  note g = advance_Gate [OF nb]
  from Cons.prems(2) obtain k where i: "i = Suc k" by (cases i) auto
  then have k: "k < length evs" using Cons.prems(3) by simp
  show ?case
  proof (cases "observes_finalizing ev")
    case True
    then have "foldl advance ReadCA evs \<noteq> Bad" using g rest by simp
    from monitor_left_gate [OF this, of "evs ! k"] k show ?thesis using i by simp
  next
    case False
    then have r: "foldl advance Gate evs \<noteq> Bad" using g rest by simp
    from False Cons.prems(4) obtain l where j: "j = Suc l" by (cases j) auto
    from Cons.IH [OF r, of l k] Cons.prems(2,4) i j k show ?thesis by simp
  qed
qed

lemma advance_accepted:
  "advance p ev \<noteq> Bad \<Longrightarrow> p \<noteq> Done \<and> (accepted_report ev \<longleftrightarrow> advance p ev = Done)"
  by (cases ev) (auto split: if_splits sum.splits)

lemma monitor_accepted_once:
  "foldl advance p evs \<noteq> Bad \<Longrightarrow>
     length (filter accepted_report evs) = (if p \<noteq> Done \<and> foldl advance p evs = Done then 1 else 0)"
proof (induction evs arbitrary: p)
  case Nil
  then show ?case by simp
next
  case (Cons ev evs)
  from advance_not_Bad [OF Cons.prems(1)] have nb: "advance p ev \<noteq> Bad"
    and rest: "foldl advance (advance p ev) evs \<noteq> Bad" by simp_all
  note a = advance_accepted [OF nb]
  note ih = Cons.IH [OF rest]
  show ?case
  proof (cases "advance p ev = Done")
    case True
    then have "evs = []" using rest monitor_Done by simp
    then show ?thesis using a True by simp
  next
    case False
    then show ?thesis using a ih by simp
  qed
qed

lemma PostInstallConfigs_example:
  "PostInstallConfigs 2 finalizer_demo start = Returned \<lparr>world = 8, trace = finalizer_demo_trace\<rparr>"
  by (simp add: PostInstallConfigs_def and_then_def numeral_2_eq_2 call_def finalizer_demo_def
      quiet_def quiet_ic_def quiet_kc_def start_def ClusterStatusFinalizing_def index_def
      finalizer_demo_trace_def)

text \<open>
  C2. In every run of PostInstallConfigs, returned or still running, the calls come in
  the order of the five steps: the polls of the cluster status, then the reads and
  uploads of the ingress CA, then the removals of the etcd patch, then the polls of the
  console pods, then the reports of completion. A call of step 2 or later has a poll
  before it that showed the cluster finalizing, and no poll of the cluster status comes
  after a poll that showed it finalizing, so the first loop is left at the first such
  poll and at no other. A run that has returned holds exactly one report that the
  inventory accepted, and a run that has not returned holds none. The monitor, which
  also checks that each loop is left only at the call that ends it and that nothing
  follows the accepted report, never goes to Bad, and is Done exactly for the runs
  that have returned.
\<close>

theorem PostInstallConfigs_steps_in_order:
  "\<exists>evs. trace (state_of (PostInstallConfigs fuel c s)) = trace s @ evs \<and>
     sorted (map step_of evs) \<and>
     (\<forall>i<length evs. 2 \<le> step_of (evs ! i) \<longrightarrow> (\<exists>j<i. observes_finalizing (evs ! j))) \<and>
     (\<forall>i<length evs. \<forall>j<i. observes_finalizing (evs ! j) \<longrightarrow> step_of (evs ! i) \<noteq> 1) \<and>
     length (filter accepted_report evs) = (if has_returned (PostInstallConfigs fuel c s) then 1 else 0) \<and>
     foldl advance Gate evs \<noteq> Bad \<and>
     (has_returned (PostInstallConfigs fuel c s) \<longleftrightarrow> foldl advance Gate evs = Done)"
proof -
  from PostInstallConfigs_phase [of fuel c s] obtain evs where
    e: "trace (state_of (PostInstallConfigs fuel c s)) = trace s @ evs"
      "foldl advance Gate evs \<noteq> Bad"
      "has_returned (PostInstallConfigs fuel c s) \<longleftrightarrow> foldl advance Gate evs = Done"
    by blast
  have 1: "sorted (map step_of evs)"
    using monitor_sorted [OF e(2)] by simp
  have 2: "\<forall>i<length evs. 2 \<le> step_of (evs ! i) \<longrightarrow> (\<exists>j<i. observes_finalizing (evs ! j))"
    using monitor_finalizing_first [OF e(2)] by blast
  have 3: "\<forall>i<length evs. \<forall>j<i. observes_finalizing (evs ! j) \<longrightarrow> step_of (evs ! i) \<noteq> 1"
    using monitor_gate_left_at_finalizing [OF e(2)] by blast
  have 4: "length (filter accepted_report evs) = (if has_returned (PostInstallConfigs fuel c s) then 1 else 0)"
    using monitor_accepted_once [OF e(2)] e(3) by simp
  show ?thesis using e 1 2 3 4 by blast
qed

text \<open>
  The scenario of the specification: the cluster is installing, then finalizing, and
  would be completed on a third poll. The first loop is left at the second poll; the
  first report is refused and the second one is accepted.
\<close>

theorem PostInstallConfigs_steps_in_order_witness:
  "\<exists>evs. trace (state_of (PostInstallConfigs 2 finalizer_demo start)) = trace start @ evs \<and>
     evs = finalizer_demo_trace \<and>
     sorted (map step_of evs) \<and>
     observes_finalizing (evs ! 1) \<and> step_of (evs ! 2) = 2 \<and>
     length (filter accepted_report evs) = 1 \<and>
     has_returned (PostInstallConfigs 2 finalizer_demo start) \<and>
     foldl advance Gate evs = Done"
proof -
  from PostInstallConfigs_steps_in_order [of 2 finalizer_demo start] obtain evs where
    e: "trace (state_of (PostInstallConfigs 2 finalizer_demo start)) = trace start @ evs"
      "sorted (map step_of evs)"
      "length (filter accepted_report evs) = (if has_returned (PostInstallConfigs 2 finalizer_demo start) then 1 else 0)"
      "has_returned (PostInstallConfigs 2 finalizer_demo start) \<longleftrightarrow> foldl advance Gate evs = Done"
    by blast
  have evs: "evs = finalizer_demo_trace"
    using e(1) unfolding PostInstallConfigs_example by (simp add: start_def)
  have r: "has_returned (PostInstallConfigs 2 finalizer_demo start)"
    unfolding PostInstallConfigs_example by simp
  have o: "observes_finalizing (finalizer_demo_trace ! 1) \<and> step_of (finalizer_demo_trace ! 2) = 2"
    by (simp add: finalizer_demo_trace_def ClusterStatusFinalizing_def)
  show ?thesis using e evs r o by (intro exI [of _ evs]) simp
qed

text \<open>
  C10. Every report of completion that a run of PostInstallConfigs sends, accepted or
  refused, in a run that returns or not, is for the cluster of the controller, with
  the success flag true and an empty error string.
\<close>

theorem PostInstallConfigs_reports_success_only:
  "\<exists>evs. trace (state_of (PostInstallConfigs fuel c s)) = trace s @ evs \<and>
     (\<forall>clusterID isSuccess errorInfo err.
        CompleteInstallation_ev clusterID isSuccess errorInfo err \<in> set evs \<longrightarrow>
        clusterID = ClusterID c \<and> isSuccess \<and> errorInfo = [])"
proof -
  from PostInstallConfigs_phase [of fuel c s] obtain evs where
    e: "trace (state_of (PostInstallConfigs fuel c s)) = trace s @ evs"
      "\<forall>ev \<in> set evs. is_report ev \<longrightarrow> (\<exists>err. ev = CompleteInstallation_ev (ClusterID c) True [] err)"
    by blast
  have "\<forall>clusterID isSuccess errorInfo err.
        CompleteInstallation_ev clusterID isSuccess errorInfo err \<in> set evs \<longrightarrow>
        clusterID = ClusterID c \<and> isSuccess \<and> errorInfo = []"
    using e(2) by fastforce
  then show ?thesis using e(1) by blast
qed

theorem PostInstallConfigs_reports_success_only_witness:
  "\<exists>evs clusterID isSuccess errorInfo err.
     trace (state_of (PostInstallConfigs 2 finalizer_demo start)) = trace start @ evs \<and>
     CompleteInstallation_ev clusterID isSuccess errorInfo err \<in> set evs \<and>
     clusterID = ClusterID finalizer_demo \<and> isSuccess \<and> errorInfo = []"
proof -
  from PostInstallConfigs_reports_success_only [of 2 finalizer_demo start] obtain evs where
    e: "trace (state_of (PostInstallConfigs 2 finalizer_demo start)) = trace start @ evs"
      "\<forall>clusterID isSuccess errorInfo err.
        CompleteInstallation_ev clusterID isSuccess errorInfo err \<in> set evs \<longrightarrow>
        clusterID = ClusterID finalizer_demo \<and> isSuccess \<and> errorInfo = []"
    by blast
  have evs: "evs = finalizer_demo_trace"
    using e(1) unfolding PostInstallConfigs_example by (simp add: start_def)
  have m: "CompleteInstallation_ev ''cluster-1'' True [] None \<in> set evs"
    unfolding evs by (simp add: finalizer_demo_trace_def)
  from e(2) m have "''cluster-1'' = ClusterID finalizer_demo \<and> True \<and> ([]::string) = []"
    by blast
  then show ?thesis using e(1) m by blast
qed

end
